theory Spec2Isabelle
  imports Complex_Main
begin

section \<open>Python values, exceptions and library primitives\<close>

text \<open>
  The embedding follows \<^verbatim>\<open>open_spiel/python/algorithms/alpha_zero.py\<close>.
  A floating-point number is the \<^typ>\<open>real\<close> number it denotes, and Python integers are
  \<^typ>\<open>int\<close>. The float64 arithmetic of the softmax and of numpy's sampling, and the
  float32 additions that form the total loss, round as IEEE 754 prescribes (section
  \<open>Binary floating point\<close> below); every other float operation is idealised as the exact
  operation on the reals. Every \<^verbatim>\<open>raise\<close> of the source, and every exception a
  library call of the source throws, is a value \<open>Inl e\<close> of the result type \<open>exn + 'a\<close>.
\<close>

datatype exn =
    ValueError string
  | AttributeError string
  | IndexError
  | ZeroDivisionError
  | EmptyBufferError
  | FloatingPointError

text \<open>Sequencing of computations that may raise: the first exception ends the
  computation.\<close>

definition bindE :: "exn + 'a \<Rightarrow> ('a \<Rightarrow> exn + 'b) \<Rightarrow> exn + 'b" where
  "bindE m f = (case m of Inl e \<Rightarrow> Inl e | Inr v \<Rightarrow> f v)"

text \<open>Running a computation that may raise over a list, left to right.\<close>

fun mapE :: "('a \<Rightarrow> exn + 'b) \<Rightarrow> 'a list \<Rightarrow> exn + 'b list" where
  "mapE f [] = Inr []"
| "mapE f (x # xs) = bindE (f x) (\<lambda>y. bindE (mapE f xs) (\<lambda>ys. Inr (y # ys)))"

text \<open>\<^verbatim>\<open>xs[i]\<close> on a Python sequence: a negative index is taken from the end, an
  index outside the sequence raises.\<close>

definition py_getitem :: "'a list \<Rightarrow> int \<Rightarrow> exn + 'a" where
  "py_getitem xs i =
     (if 0 \<le> i \<and> i < int (length xs) then Inr (xs ! nat i)
      else if - int (length xs) \<le> i \<and> i < 0 then Inr (xs ! nat (int (length xs) + i))
      else Inl IndexError)"

text \<open>\<^verbatim>\<open>a / b\<close> under \<^verbatim>\<open>from __future__ import division\<close>.\<close>

definition py_truediv :: "real \<Rightarrow> real \<Rightarrow> exn + real" where
  "py_truediv a b = (if b = 0 then Inl ZeroDivisionError else Inr (a / b))"

definition math_log :: "real \<Rightarrow> exn + real" where
  "math_log x = (if x \<le> 0 then Inl (ValueError ''math domain error'') else Inr (ln x))"

definition math_sqrt :: "real \<Rightarrow> exn + real" where
  "math_sqrt x = (if x < 0 then Inl (ValueError ''math domain error'') else Inr (sqrt x))"

text \<open>\<^verbatim>\<open>x and y\<close> on numbers: when \<open>x\<close> is falsy (zero) the result is \<open>x\<close> itself and
  \<open>y\<close> is not evaluated, so an exception of \<open>y\<close> is not raised; otherwise the result is
  that of \<open>y\<close>.\<close>

definition py_and :: "real \<Rightarrow> exn + real \<Rightarrow> exn + real" where
  "py_and x y = (if x = 0 then Inr x else y)"

section \<open>Binary floating point\<close>

text \<open>IEEE 754 binary arithmetic with precision \<open>p\<close> (the bits of the significand, the
  hidden one included), least exponent \<open>emin\<close> and greatest exponent \<open>emax\<close>. The result
  of an operation is its exact result rounded to the nearest representable number, a tie
  going to the one with an even significand. A number \<open>x\<close> with
  \<open>2^e \<le> |x| < 2^(e+1)\<close> lies between multiples of \<open>2^(e-p+1)\<close>; below \<open>2^emin\<close> the
  spacing stays \<open>2^(emin-p+1)\<close> (subnormal numbers), so that a small enough result rounds
  to 0. A result that rounds to \<open>2^(emax+1)\<close> or beyond is an infinity: numpy and
  TensorFlow go on with \<open>inf\<close> and, from there, \<open>nan\<close>; the reals have
  neither, so the model ends the computation there with \<open>FloatingPointError\<close> (what
  numpy raises under \<^verbatim>\<open>np.seterr(all='raise')\<close>).\<close>

definition round_half_even :: "real \<Rightarrow> int" where
  "round_half_even t =
     (let f = \<lfloor>t\<rfloor>; r = t - of_int f in
      if r < 1 / 2 then f else if 1 / 2 < r then f + 1 else if even f then f else f + 1)"

definition ieee_round :: "nat \<Rightarrow> int \<Rightarrow> real \<Rightarrow> real" where
  "ieee_round p emin x =
     (if x = 0 then 0
      else
        let e = max \<lfloor>log 2 \<bar>x\<bar>\<rfloor> emin;
            q = 2 powr (of_int e - real p + 1)
        in of_int (round_half_even (x / q)) * q)"

definition ieee_value :: "nat \<Rightarrow> int \<Rightarrow> int \<Rightarrow> real \<Rightarrow> exn + real" where
  "ieee_value p emin emax x =
     (let r = ieee_round p emin x in
      if 2 powr (of_int emax + 1) \<le> \<bar>r\<bar> then Inl FloatingPointError else Inr r)"

text \<open>binary64, the \<^verbatim>\<open>float64\<close> of numpy, and binary32, the \<^verbatim>\<open>float32\<close> of
  TensorFlow's tensors.\<close>

definition round64 :: "real \<Rightarrow> real" where
  "round64 x = ieee_round 53 (- 1022) x"

definition float64 :: "real \<Rightarrow> exn + real" where
  "float64 x = ieee_value 53 (- 1022) 1023 x"

definition round32 :: "real \<Rightarrow> real" where
  "round32 x = ieee_round 24 (- 126) x"

definition float32 :: "real \<Rightarrow> exn + real" where
  "float32 x = ieee_value 24 (- 126) 127 x"

section \<open>Search nodes and the PUCT scorer\<close>

text \<open>The fields of an \<^verbatim>\<open>mcts.SearchNode\<close> that this module reads.\<close>

record child =
  action :: int
  explore_count :: int
  total_reward :: real
  prior :: real
  outcome :: "real list option"
  player :: int

definition alpha_zero_ucb_score :: "child \<Rightarrow> int \<Rightarrow> real \<times> real \<Rightarrow> exn + real" where
  "alpha_zero_ucb_score c parent_explore_count params =
     (case params of (c_init, c_base) \<Rightarrow>
       (case outcome c of
          Some out \<Rightarrow> py_getitem out (player c)
        | None \<Rightarrow>
            bindE (py_truediv (real_of_int parent_explore_count + c_base + 1) c_base) (\<lambda>q.
            bindE (math_log q) (\<lambda>l.
            bindE (math_sqrt (real_of_int parent_explore_count)) (\<lambda>s.
            bindE (py_truediv s (real_of_int (explore_count c + 1))) (\<lambda>f.
            let cc = (l + c_init) * f;
                prior_score = cc * prior c
            in bindE (py_and (real_of_int (explore_count c))
                        (py_truediv (total_reward c) (real_of_int (explore_count c))))
                 (\<lambda>value_score. Inr (prior_score + value_score))))))))"

section \<open>numpy primitives\<close>

text \<open>\<^verbatim>\<open>np.zeros(n)\<close>.\<close>

definition np_zeros :: "int \<Rightarrow> exn + real list" where
  "np_zeros n =
     (if n < 0 then Inl (ValueError ''negative dimensions are not allowed'')
      else Inr (replicate (nat n) 0))"

text \<open>\<^verbatim>\<open>xs[i] = v\<close> on a one-dimensional array.\<close>

definition np_setitem :: "real list \<Rightarrow> int \<Rightarrow> real \<Rightarrow> exn + real list" where
  "np_setitem xs i v =
     (if 0 \<le> i \<and> i < int (length xs) then Inr (xs[nat i := v])
      else if - int (length xs) \<le> i \<and> i < 0 then Inr (xs[nat (int (length xs) + i) := v])
      else Inl IndexError)"

text \<open>\<^verbatim>\<open>xs /= s\<close> on a float array. With \<open>s = 0\<close> numpy warns and goes on with
  entries that are \<open>nan\<close> or \<open>inf\<close>; the reals have neither, so the model ends the
  computation there with \<open>FloatingPointError\<close> (what numpy raises under
  \<^verbatim>\<open>np.seterr(all='raise')\<close>).\<close>

definition np_idiv :: "real list \<Rightarrow> real \<Rightarrow> exn + real list" where
  "np_idiv xs s =
     (if s = 0 \<and> xs \<noteq> [] then Inl FloatingPointError else Inr (map (\<lambda>x. x / s) xs))"

text \<open>Arithmetic on \<^verbatim>\<open>int64\<close> and \<^verbatim>\<open>float64\<close> arrays. An \<^verbatim>\<open>int64\<close>
  difference wraps around. \<^verbatim>\<open>np.exp\<close> of an \<^verbatim>\<open>int64\<close> entry is the float64 nearest
  to the exponential (the conversion of the entry to float64 is exact below \<open>2^53\<close> in
  magnitude, and beyond that leaves the result, 0 or an overflow, as it is). \<^verbatim>\<open>np.exp\<close>
  is taken to round correctly. \<^verbatim>\<open>np.sum\<close> and \<^verbatim>\<open>cumsum\<close> add the entries to the
  first one, left to right, rounding after each addition (for long arrays numpy adds in
  blocks, with the same rounding of each addition); the division of an array by a number
  rounds each quotient, and a division by zero yields \<open>inf\<close> or \<open>nan\<close>.\<close>

definition int64 :: "int \<Rightarrow> int" where
  "int64 z = (z + 2 ^ 63) mod 2 ^ 64 - 2 ^ 63"

definition np_exp :: "int \<Rightarrow> exn + real" where
  "np_exp x = float64 (exp (real_of_int x))"

fun np_sum_from :: "real \<Rightarrow> real list \<Rightarrow> exn + real" where
  "np_sum_from acc [] = Inr acc"
| "np_sum_from acc (x # xs) = bindE (float64 (acc + x)) (\<lambda>s. np_sum_from s xs)"

definition np_sum :: "real list \<Rightarrow> exn + real" where
  "np_sum xs = (case xs of [] \<Rightarrow> Inr 0 | x # rest \<Rightarrow> np_sum_from x rest)"

fun np_cumsum_from :: "real \<Rightarrow> real list \<Rightarrow> exn + real list" where
  "np_cumsum_from acc [] = Inr []"
| "np_cumsum_from acc (x # xs) =
     bindE (float64 (acc + x)) (\<lambda>s. bindE (np_cumsum_from s xs) (\<lambda>cs. Inr (s # cs)))"

definition np_cumsum :: "real list \<Rightarrow> exn + real list" where
  "np_cumsum xs =
     (case xs of [] \<Rightarrow> Inr [] | x # rest \<Rightarrow> bindE (np_cumsum_from x rest) (\<lambda>cs. Inr (x # cs)))"

definition np_divide :: "real list \<Rightarrow> real \<Rightarrow> exn + real list" where
  "np_divide xs s =
     (if s = 0 \<and> xs \<noteq> [] then Inl FloatingPointError
      else mapE (\<lambda>x. float64 (x / s)) xs)"

text \<open>\<^verbatim>\<open>np_softmax\<close> of the source, on the one-dimensional \<^verbatim>\<open>int64\<close> array it is
  called with; \<^verbatim>\<open>np.amax\<close> raises on an empty array.\<close>

definition np_softmax :: "int list \<Rightarrow> exn + real list" where
  "np_softmax logits =
     (if logits = [] then
        Inl (ValueError ''zero-size array to reduction operation maximum which has no identity'')
      else
        let max_logit = fold max (tl logits) (hd logits) in
        bindE (mapE (\<lambda>x. np_exp (int64 (x - max_logit))) logits) (\<lambda>exp_logit.
        bindE (np_sum exp_logit) (\<lambda>s.
        np_divide exp_logit s)))"

text \<open>\<^verbatim>\<open>np.random.choice(range(len(p)), p=p)\<close> with \<open>u\<close> the uniform draw it takes
  from the global generator: after validating \<open>p\<close> (its sum within \<open>sqrt eps = 2^-26\<close>
  of 1; numpy forms that sum by compensated summation, the model takes the exact sum of
  the entries), it normalises the cumulative sums by the last one and returns
  \<^verbatim>\<open>cdf.searchsorted(u, side='right')\<close>, the number of leading entries \<open>\<le> u\<close> of the
  non-decreasing \<open>cdf\<close>.\<close>

definition np_random_choice :: "real list \<Rightarrow> real \<Rightarrow> exn + nat" where
  "np_random_choice p u =
     (if p = [] then Inl (ValueError ''a must be non-empty'')
      else if list_ex (\<lambda>x. x < 0) p then Inl (ValueError ''probabilities are not non-negative'')
      else if 1 / 2 ^ 26 < \<bar>sum_list p - 1\<bar> then
        Inl (ValueError ''probabilities do not sum to 1'')
      else
        bindE (np_cumsum p) (\<lambda>cdf.
        bindE (np_divide cdf (last cdf)) (\<lambda>cdf.
          Inr (length (takeWhile (\<lambda>c. c \<le> u) cdf)))))"

text \<open>Python's comparison of two pairs of integers, and \<^verbatim>\<open>max\<close> of a list of such
  pairs: the first maximal element; an empty list raises.\<close>

definition tuple_less :: "int \<times> int \<Rightarrow> int \<times> int \<Rightarrow> bool" where
  "tuple_less a b = (fst a < fst b \<or> (fst a = fst b \<and> snd a < snd b))"

definition py_max :: "(int \<times> int) list \<Rightarrow> exn + int \<times> int" where
  "py_max xs =
     (case xs of
        [] \<Rightarrow> Inl (ValueError ''max() arg is an empty sequence'')
      | x # rest \<Rightarrow> Inr (fold (\<lambda>y m. if tuple_less m y then y else m) rest x))"

section \<open>The game, the bot and the replay buffer\<close>

text \<open>Modelled from the spec: the enumerations of \<^verbatim>\<open>pyspiel.GameType\<close> are not in the
  sources; the spec's section 6 says each structural property is drawn from a fixed
  enumeration, of which section 4.4 names the admitted value and section 8 names
  \<open>SIMULTANEOUS\<close>. The other constructors stand for the remaining values.\<close>

datatype ChanceMode = DETERMINISTIC | EXPLICIT_STOCHASTIC | SAMPLED_STOCHASTIC

datatype Information = ONE_SHOT | PERFECT_INFORMATION | IMPERFECT_INFORMATION

datatype Dynamics = SIMULTANEOUS | SEQUENTIAL

datatype Utility = ZERO_SUM | CONSTANT_SUM | GENERAL_SUM | IDENTICAL

record GameType =
  chance_mode :: ChanceMode
  information :: Information
  dynamics :: Dynamics
  utility :: Utility

text \<open>The game object as the module uses it. \<open>attrs\<close> is attribute lookup on the game
  object itself (\<^verbatim>\<open>game.chance_mode\<close> and so on, as opposed to the fields of
  \<^verbatim>\<open>game.get_type()\<close>): the text \<^verbatim>\<open>str\<close> gives for the attribute, or \<open>None\<close> when the
  object has no such attribute. The methods of a \<^verbatim>\<open>pyspiel.State\<close> are functions of
  a state value of type \<open>'s\<close>.\<close>

record 's Game =
  get_type :: GameType
  num_players :: int
  num_distinct_actions :: int
  attrs :: "string \<Rightarrow> string option"
  new_initial_state :: 's
  is_terminal :: "'s \<Rightarrow> bool"
  observation_tensor :: "'s \<Rightarrow> real list"
  history :: "'s \<Rightarrow> int list"
  apply_action :: "'s \<Rightarrow> int \<Rightarrow> 's"
  rewards :: "'s \<Rightarrow> real list"
  legal_actions :: "'s \<Rightarrow> int list"
  legal_actions_mask :: "'s \<Rightarrow> int list"

definition getattr :: "'s Game \<Rightarrow> string \<Rightarrow> exn + string" where
  "getattr g name = (case attrs g name of None \<Rightarrow> Inl (AttributeError name) | Some v \<Rightarrow> Inr v)"

record MCTSResult =
  observation :: "real list"
  target_value :: real
  target_policy :: "real list"

record LossValues =
  lv_total :: real
  lv_policy :: real
  lv_value :: real
  lv_l2 :: real

text \<open>The \<^verbatim>\<open>MCTSBot\<close>: its mutable state (the search's random state and the
  evaluator with its parameters) is a value of type \<open>'b\<close>; \<^verbatim>\<open>bot.mcts_search(state)\<close>
  returns the children of the root node, \<^verbatim>\<open>bot.evaluator.update(data)\<close> the losses.\<close>

record ('s, 'b) MCTSBot =
  bot_state :: 'b
  mcts_search :: "'b \<Rightarrow> 's \<Rightarrow> child list \<times> 'b"
  evaluator_update :: "'b \<Rightarrow> MCTSResult list \<Rightarrow> exn + LossValues \<times> 'b"

text \<open>Modelled from the spec: \<^verbatim>\<open>dqn.ReplayBuffer\<close> is not in the sources. Sections 3
  and 4.1 of the spec: a capacity and a bounded sequence of stored transitions; \<open>add\<close>
  evicts the single oldest transition first when the buffer is at capacity; \<open>sample\<close>
  with replacement returns exactly \<open>n\<close> stored transitions, drawn at random, does not
  change the buffer, and fails with \<open>EmptyBufferError\<close> on an empty buffer. The draws
  are the values \<open>rand 0, rand 1, ...\<close> of the random source, each reduced to an index.\<close>

record ReplayBuffer =
  capacity :: int
  items :: "MCTSResult list"

definition ReplayBuffer_init :: "int \<Rightarrow> ReplayBuffer" where
  "ReplayBuffer_init replay_buffer_capacity = \<lparr>capacity = replay_buffer_capacity, items = []\<rparr>"

definition buffer_add :: "ReplayBuffer \<Rightarrow> MCTSResult \<Rightarrow> ReplayBuffer" where
  "buffer_add b t =
     (if int (length (items b)) < capacity b then b\<lparr>items := items b @ [t]\<rparr>
      else b\<lparr>items := tl (items b) @ [t]\<rparr>)"

definition buffer_sample_replace :: "ReplayBuffer \<Rightarrow> int \<Rightarrow> (nat \<Rightarrow> nat) \<Rightarrow> exn + MCTSResult list" where
  "buffer_sample_replace b n rand =
     (if items b = [] then Inl EmptyBufferError
      else Inr (map (\<lambda>k. items b ! (rand k mod length (items b))) [0..<nat n]))"

text \<open>The process-wide random generators: the uniform draws in \<open>[0, 1)\<close> that numpy's
  global generator will return, and the draws behind the buffer's sampling.\<close>

record globals =
  np_random :: "nat \<Rightarrow> real"
  sample_random :: "nat \<Rightarrow> nat"

section \<open>The training controller\<close>

record ('s, 'b) AlphaZero =
  bot :: "('s, 'b) MCTSBot"
  game :: "'s Game"
  buffer :: ReplayBuffer
  num_self_play_games :: int
  action_selection_transition :: int
  batch_size :: int

text \<open>\<^verbatim>\<open>AlphaZero.__init__\<close>: \<open>Inl\<close> is the exception raised, \<open>Inr\<close> the constructed
  object.\<close>

definition AlphaZero_init ::
  "'s Game \<Rightarrow> ('s, 'b) MCTSBot \<Rightarrow> int \<Rightarrow> int \<Rightarrow> int \<Rightarrow> int \<Rightarrow> int \<Rightarrow> 'r option
     \<Rightarrow> exn + ('s, 'b) AlphaZero" where
  "AlphaZero_init g b replay_buffer_capacity action_selection_transition'
       num_self_play_games' num_training_rounds batch_size' random_state =
     (let game_info = get_type g in
      if num_players g \<noteq> 2 then Inl (ValueError ''Game must be a 2-player game'')
      else if chance_mode game_info \<noteq> DETERMINISTIC then
        bindE (getattr g ''chance_mode'') (\<lambda>v.
          Inl (ValueError (''The game must be a Deterministic one, not '' @ v)))
      else if information game_info \<noteq> PERFECT_INFORMATION then
        bindE (getattr g ''information'') (\<lambda>v.
          Inl (ValueError (''The game must be a perfect information one, not '' @ v)))
      else if dynamics game_info \<noteq> SEQUENTIAL then
        bindE (getattr g ''dynamics'') (\<lambda>v.
          Inl (ValueError (''The game must be turn-based, not '' @ v)))
      else if utility game_info \<noteq> ZERO_SUM then
        bindE (getattr g ''utility'') (\<lambda>v.
          Inl (ValueError (''The game must be 0-sum, not '' @ v)))
      else if num_players g \<noteq> 2 then Inl (ValueError ''Game must have exactly 2 players.'')
      else Inr \<lparr>bot = b, game = g, buffer = ReplayBuffer_init replay_buffer_capacity,
                num_self_play_games = num_self_play_games',
                action_selection_transition = action_selection_transition',
                batch_size = batch_size'\<rparr>)"

text \<open>\<^verbatim>\<open>AlphaZero.update\<close>.\<close>

definition AlphaZero_update ::
  "('s, 'b) AlphaZero \<Rightarrow> globals \<Rightarrow> exn + LossValues \<times> ('s, 'b) AlphaZero \<times> globals" where
  "AlphaZero_update a w =
     bindE (buffer_sample_replace (buffer a) (batch_size a) (sample_random w)) (\<lambda>data.
     bindE (evaluator_update (bot a) (bot_state (bot a)) data) (\<lambda>(r, b').
       Inr (\<lparr>lv_total = lv_total r, lv_policy = lv_policy r, lv_value = lv_value r,
             lv_l2 = lv_l2 r\<rparr>,
            a\<lparr>bot := (bot a)\<lparr>bot_state := b'\<rparr>\<rparr>,
            w\<lparr>sample_random := (\<lambda>i. sample_random w (i + nat (batch_size a)))\<rparr>)))"

section \<open>Self-play\<close>

text \<open>The target policy of one step (lines 122 to 126 of the source).\<close>

fun fill_counts :: "real list \<Rightarrow> child list \<Rightarrow> exn + real list" where
  "fill_counts tp [] = Inr tp"
| "fill_counts tp (c # cs) =
     bindE (np_setitem tp (action c) (real_of_int (explore_count c))) (\<lambda>tp'. fill_counts tp' cs)"

definition target_policy_of :: "int \<Rightarrow> child list \<Rightarrow> exn + real list" where
  "target_policy_of n children =
     bindE (np_zeros n) (\<lambda>z.
     bindE (fill_counts z children) (\<lambda>tp.
     np_idiv tp (sum_list tp)))"

text \<open>\<^verbatim>\<open>AlphaZero._select_action\<close>; the draw is taken from numpy's global generator.\<close>

definition select_action ::
  "('s, 'b) AlphaZero \<Rightarrow> child list \<Rightarrow> int \<Rightarrow> globals \<Rightarrow> exn + int \<times> globals" where
  "select_action a children game_history_len w =
     (let explore_counts = map (\<lambda>c. (explore_count c, action c)) children in
      if game_history_len < action_selection_transition a then
        bindE (np_softmax (map (\<lambda>i. fst i) explore_counts)) (\<lambda>probs.
        bindE (np_random_choice probs (np_random w 0)) (\<lambda>action_index.
        bindE (py_getitem explore_counts (int action_index)) (\<lambda>e.
          Inr (snd e, w\<lparr>np_random := (\<lambda>i. np_random w (Suc i))\<rparr>))))
      else bindE (py_max explore_counts) (\<lambda>m. Inr (snd m, w)))"

text \<open>The \<^verbatim>\<open>while\<close> loop of \<^verbatim>\<open>_self_play_single\<close>, with fuel: \<open>None\<close> when the game
  has not ended within \<open>fuel\<close> moves.\<close>

fun self_play_loop ::
  "nat \<Rightarrow> ('s, 'b) AlphaZero \<Rightarrow> 'b \<Rightarrow> globals \<Rightarrow> 's \<Rightarrow> real list list \<Rightarrow> real list list
     \<Rightarrow> (exn + 's \<times> real list list \<times> real list list \<times> 'b \<times> globals) option" where
  "self_play_loop 0 a b w state observations policy_target = None"
| "self_play_loop (Suc fuel) a b w state observations policy_target =
     (if is_terminal (game a) state then Some (Inr (state, observations, policy_target, b, w))
      else
        (case mcts_search (bot a) b state of (children, b') \<Rightarrow>
        (case target_policy_of (num_distinct_actions (game a)) children of
           Inl e \<Rightarrow> Some (Inl e)
         | Inr tp \<Rightarrow>
        (case select_action a children (int (length (history (game a) state))) w of
           Inl e \<Rightarrow> Some (Inl e)
         | Inr (act, w') \<Rightarrow>
             self_play_loop fuel a b' w' (apply_action (game a) state act)
               (observations @ [observation_tensor (game a) state])
               (policy_target @ [tp])))))"

text \<open>The final \<^verbatim>\<open>for\<close> loop of \<^verbatim>\<open>_self_play_single\<close>: step \<open>i\<close> of the episode.\<close>

fun add_results ::
  "nat \<Rightarrow> (real list \<times> real list) list \<Rightarrow> real list \<Rightarrow> ReplayBuffer \<Rightarrow> exn + ReplayBuffer" where
  "add_results i [] terminal_rewards buf = Inr buf"
| "add_results i ((obs, pol) # rest) terminal_rewards buf =
     bindE (py_getitem terminal_rewards (int i mod 2)) (\<lambda>v.
       add_results (Suc i) rest terminal_rewards
         (buffer_add buf \<lparr>observation = obs, target_value = v, target_policy = pol\<rparr>))"

definition self_play_single ::
  "nat \<Rightarrow> ('s, 'b) AlphaZero \<Rightarrow> globals \<Rightarrow> (exn + ('s, 'b) AlphaZero \<times> globals) option" where
  "self_play_single fuel a w =
     (case self_play_loop fuel a (bot_state (bot a)) w (new_initial_state (game a)) [] [] of
        None \<Rightarrow> None
      | Some (Inl e) \<Rightarrow> Some (Inl e)
      | Some (Inr (state, observations, policy_target, b', w')) \<Rightarrow>
          Some (bindE (add_results 0 (zip observations policy_target)
                         (rewards (game a) state) (buffer a)) (\<lambda>buf.
                  Inr (a\<lparr>bot := (bot a)\<lparr>bot_state := b'\<rparr>, buffer := buf\<rparr>, w'))))"

text \<open>\<^verbatim>\<open>AlphaZero.self_play\<close>: \<open>num_self_play_games\<close> episodes, each with the given
  fuel.\<close>

fun self_play_games ::
  "nat \<Rightarrow> nat \<Rightarrow> ('s, 'b) AlphaZero \<Rightarrow> globals \<Rightarrow> (exn + ('s, 'b) AlphaZero \<times> globals) option" where
  "self_play_games 0 fuel a w = Some (Inr (a, w))"
| "self_play_games (Suc k) fuel a w =
     (case self_play_single fuel a w of
        None \<Rightarrow> None
      | Some (Inl e) \<Rightarrow> Some (Inl e)
      | Some (Inr (a', w')) \<Rightarrow> self_play_games k fuel a' w')"

definition AlphaZero_self_play ::
  "nat \<Rightarrow> ('s, 'b) AlphaZero \<Rightarrow> globals \<Rightarrow> (exn + ('s, 'b) AlphaZero \<times> globals) option" where
  "AlphaZero_self_play fuel a w = self_play_games (nat (num_self_play_games a)) fuel a w"

section \<open>The Keras evaluator\<close>

text \<open>Modelled from the spec: \<^verbatim>\<open>masked_softmax.np_masked_softmax\<close> is not in the
  sources. The spec's glossary and section 4.5: a softmax restricted to the allowed
  outcomes; disallowed outcomes get probability zero and take no part in the
  normalisation denominator. The mask holds a non-zero entry for each allowed outcome.
  Where no outcome is allowed the denominator is zero and the spec gives no
  distribution; the model ends the computation there.\<close>

definition np_masked_softmax :: "real list \<Rightarrow> int list \<Rightarrow> exn + real list" where
  "np_masked_softmax logits legal_actions_mask' =
     (if length logits \<noteq> length legal_actions_mask' then
        Inl (ValueError ''operands could not be broadcast together'')
      else
        let exp_logit = map (\<lambda>(l, m). if m \<noteq> 0 then exp l else 0) (zip logits legal_actions_mask');
            z = sum_list exp_logit
        in if z = 0 then Inl FloatingPointError else Inr (map (\<lambda>e. e / z) exp_logit))"

text \<open>\<^verbatim>\<open>np.vstack\<close> of a list of rows: an empty list and rows of different lengths
  raise.\<close>

definition np_vstack :: "real list list \<Rightarrow> exn + real list list" where
  "np_vstack rows =
     (if rows = [] then Inl (ValueError ''need at least one array to concatenate'')
      else if \<not> list_all (\<lambda>r. length r = length (hd rows)) rows then
        Inl (ValueError ''all the input array dimensions must match exactly'')
      else Inr rows)"

text \<open>The TensorFlow losses by their documented values. \<^verbatim>\<open>tf.nn.l2_loss(t)\<close> is
  \<^verbatim>\<open>sum(t ** 2) / 2\<close>. \<^verbatim>\<open>tf.losses.mean_squared_error\<close> with unit weights is the
  sum of the squared differences divided by the number of elements (0 for no element, as
  HOL's division gives). \<^verbatim>\<open>tf.nn.softmax_cross_entropy_with_logits_v2\<close> is, for each
  row, minus the sum of the labels times the log-softmax of the logits.\<close>

definition tf_l2_loss :: "real list \<Rightarrow> real" where
  "tf_l2_loss t = sum_list (map (\<lambda>x. x ^ 2) t) / 2"

definition tf_mean_squared_error :: "real list list \<Rightarrow> real list list \<Rightarrow> exn + real" where
  "tf_mean_squared_error labels predictions =
     (if map length labels \<noteq> map length predictions then
        Inl (ValueError ''Shapes are incompatible'')
      else
        Inr (sum_list (map (\<lambda>(l, p). (p - l) ^ 2) (zip (concat labels) (concat predictions)))
             / real (length (concat labels))))"

definition tf_softmax_cross_entropy_with_logits ::
  "real list list \<Rightarrow> real list list \<Rightarrow> exn + real list" where
  "tf_softmax_cross_entropy_with_logits logits labels =
     (if map length logits \<noteq> map length labels then
        Inl (ValueError ''logits and labels must be broadcastable'')
      else
        Inr (map (\<lambda>(lg, lb).
               - sum_list (map (\<lambda>(x, y). y * (x - ln (sum_list (map exp lg)))) (zip lg lb)))
             (zip logits labels)))"

definition tf_reduce_mean :: "real list \<Rightarrow> real" where
  "tf_reduce_mean xs = sum_list xs / real (length xs)"

text \<open>The sum of two scalar \<^verbatim>\<open>float32\<close> tensors.\<close>

definition tf_add :: "real \<Rightarrow> real \<Rightarrow> exn + real" where
  "tf_add a b = float32 (a + b)"

text \<open>The evaluator object. \<open>model\<close> is the Keras model as a function of its trainable
  variables, the \<^verbatim>\<open>training\<close> flag and a batch of observations, returning one row of
  values and one row of policy logits per observation. \<open>apply_gradients\<close> stands for
  \<^verbatim>\<open>tape.gradient\<close> followed by \<^verbatim>\<open>optimizer.apply_gradients\<close>: the optimiser state
  and the variables after one step on the total loss of the batch. \<open>input_shape\<close> is the
  model's input shape with the batch dimension set to 1.\<close>

record 'o AlphaZeroKerasEvaluator =
  model :: "real list list \<Rightarrow> bool \<Rightarrow> real list list \<Rightarrow> real list list \<times> real list list"
  trainable_variables :: "real list list"
  input_shape :: "int list"
  num_actions :: int
  l2_regularization :: real
  optimizer :: 'o
  apply_gradients :: "'o \<Rightarrow> real list list \<Rightarrow> MCTSResult list \<Rightarrow> 'o \<times> real list list"

text \<open>\<^verbatim>\<open>AlphaZeroKerasEvaluator.value_and_prior\<close>.\<close>

definition value_and_prior ::
  "'o AlphaZeroKerasEvaluator \<Rightarrow> 's Game \<Rightarrow> 's \<Rightarrow> exn + real list \<times> (int \<times> real) list" where
  "value_and_prior ev g state =
     (if int (length (observation_tensor g state)) \<noteq> prod_list (input_shape ev) then
        Inl (ValueError ''cannot reshape array'')
      else
        (case model ev (trainable_variables ev) False [observation_tensor g state] of
           (value_rows, policy_rows) \<Rightarrow>
             bindE (py_getitem policy_rows 0) (\<lambda>policy.
             bindE (np_masked_softmax policy (legal_actions_mask g state)) (\<lambda>policy.
             bindE (mapE (\<lambda>act. bindE (py_getitem policy act) (\<lambda>p. Inr (act, p)))
                      (legal_actions g state)) (\<lambda>policy.
             bindE (py_getitem value_rows 0) (\<lambda>row.
             bindE (py_getitem row 0) (\<lambda>v.
               Inr ([v, - v], policy))))))))"

text \<open>\<^verbatim>\<open>AlphaZeroKerasEvaluator.update\<close>. The three losses are the values documented
  for them; the total is formed from them by two \<^verbatim>\<open>float32\<close> additions, left to
  right, as \<^verbatim>\<open>loss_policy + loss_value + loss_l2\<close> is evaluated.\<close>

definition AlphaZeroKerasEvaluator_update ::
  "'o AlphaZeroKerasEvaluator \<Rightarrow> MCTSResult list
     \<Rightarrow> exn + LossValues \<times> 'o AlphaZeroKerasEvaluator" where
  "AlphaZeroKerasEvaluator_update ev training_examples =
     bindE (np_vstack (map observation training_examples)) (\<lambda>observations.
     bindE (np_vstack (map (\<lambda>e. [target_value e]) training_examples)) (\<lambda>target_values.
     bindE (np_vstack (map target_policy training_examples)) (\<lambda>target_policies.
     (case model ev (trainable_variables ev) True observations of
        (values, policy_logits) \<Rightarrow>
          bindE (tf_mean_squared_error values target_values) (\<lambda>loss_value.
          bindE (tf_softmax_cross_entropy_with_logits policy_logits target_policies) (\<lambda>ce.
          let loss_policy = tf_reduce_mean ce;
              loss_l2 = fold (\<lambda>weights acc. acc + l2_regularization ev * tf_l2_loss weights)
                          (trainable_variables ev) 0
          in bindE (tf_add loss_policy loss_value) (\<lambda>s.
             bindE (tf_add s loss_l2) (\<lambda>loss.
             (case apply_gradients ev (optimizer ev) (trainable_variables ev)
                     training_examples of
                (opt', vars') \<Rightarrow>
                  Inr (\<lparr>lv_total = loss, lv_policy = loss_policy, lv_value = loss_value,
                        lv_l2 = loss_l2\<rparr>,
                       ev\<lparr>optimizer := opt', trainable_variables := vars'\<rparr>))))))))))"

section \<open>A toy game and a toy bot\<close>

text \<open>Concrete inputs for the theorems below. \<open>toy_game plies\<close> has two actions and ends
  after \<open>plies\<close> moves; its state is the number of moves played, and the first player
  wins. Like a \<^verbatim>\<open>pyspiel.Game\<close>, the object has no attribute of its own named after a
  structural property. The toy bot's search visits action 0 three times and action 1
  once; its state counts the evaluator updates.\<close>

definition toy_game :: "nat \<Rightarrow> nat Game" where
  "toy_game plies =
     \<lparr>get_type = \<lparr>chance_mode = DETERMINISTIC, information = PERFECT_INFORMATION,
                  dynamics = SEQUENTIAL, utility = ZERO_SUM\<rparr>,
      num_players = 2,
      num_distinct_actions = 2,
      attrs = (\<lambda>name. None),
      new_initial_state = 0,
      is_terminal = (\<lambda>s. plies \<le> s),
      observation_tensor = (\<lambda>s. [real s]),
      history = (\<lambda>s. replicate s 0),
      apply_action = (\<lambda>s act. Suc s),
      rewards = (\<lambda>s. [1, - 1]),
      legal_actions = (\<lambda>s. [0, 1]),
      legal_actions_mask = (\<lambda>s. [1, 1])\<rparr>"

definition toy_children :: "child list" where
  "toy_children =
     [\<lparr>action = 0, explore_count = 3, total_reward = 2, prior = 1 / 2, outcome = None,
       player = 0\<rparr>,
      \<lparr>action = 1, explore_count = 1, total_reward = 0, prior = 1 / 2, outcome = None,
       player = 0\<rparr>]"

definition toy_bot :: "(nat, nat) MCTSBot" where
  "toy_bot =
     \<lparr>bot_state = 0,
      mcts_search = (\<lambda>b s. (toy_children, b)),
      evaluator_update = (\<lambda>b data.
        Inr (\<lparr>lv_total = real (length data), lv_policy = real (length data), lv_value = 0,
              lv_l2 = 0\<rparr>, Suc b))\<rparr>"

definition toy_globals :: globals where
  "toy_globals = \<lparr>np_random = (\<lambda>i. 1 / 2), sample_random = (\<lambda>i. i)\<rparr>"

definition toy_controller :: "(nat, nat) AlphaZero" where
  "toy_controller =
     \<lparr>bot = toy_bot, game = toy_game 2, buffer = \<lparr>capacity = 10, items = []\<rparr>,
      num_self_play_games = 1, action_selection_transition = 0, batch_size = 2\<rparr>"

definition toy_transitions :: "MCTSResult list" where
  "toy_transitions =
     [\<lparr>observation = [0], target_value = 1, target_policy = [3 / 4, 1 / 4]\<rparr>,
      \<lparr>observation = [1], target_value = - 1, target_policy = [3 / 4, 1 / 4]\<rparr>]"

definition toy_evaluator :: "unit AlphaZeroKerasEvaluator" where
  "toy_evaluator =
     \<lparr>model = (\<lambda>vars training obs. (map (\<lambda>ob. [1 / 2]) obs, map (\<lambda>ob. [0, 0]) obs)),
      trainable_variables = [[1]],
      input_shape = [1, 1],
      num_actions = 2,
      l2_regularization = 1,
      optimizer = (),
      apply_gradients = (\<lambda>opt vars batch. (opt, vars))\<rparr>"

text \<open>Two children whose explore counts lie 1000 apart, and an evaluator over a single
  action whose model returns the value 0 and the logit 0, with one trainable parameter
  \<open>x\<close> and regularisation coefficient \<open>c\<close>; \<open>toy_batch t\<close> is one transition with target
  value \<open>t\<close>.\<close>

definition toy_children_far :: "child list" where
  "toy_children_far =
     [\<lparr>action = 0, explore_count = 0, total_reward = 0, prior = 1 / 2, outcome = None,
       player = 0\<rparr>,
      \<lparr>action = 1, explore_count = 1000, total_reward = 0, prior = 1 / 2, outcome = None,
       player = 0\<rparr>]"

definition toy_evaluator_one_action :: "real \<Rightarrow> real \<Rightarrow> unit AlphaZeroKerasEvaluator" where
  "toy_evaluator_one_action x c =
     \<lparr>model = (\<lambda>vars training obs. (map (\<lambda>ob. [0]) obs, map (\<lambda>ob. [0]) obs)),
      trainable_variables = [[x]],
      input_shape = [1, 1],
      num_actions = 1,
      l2_regularization = c,
      optimizer = (),
      apply_gradients = (\<lambda>opt vars batch. (opt, vars))\<rparr>"

definition toy_batch :: "real \<Rightarrow> MCTSResult list" where
  "toy_batch t = [\<lparr>observation = [0], target_value = t, target_policy = [1]\<rparr>]"

definition toy_game_one_legal :: "nat Game" where
  "toy_game_one_legal =
     (toy_game 1)\<lparr>legal_actions := (\<lambda>s. [0]), legal_actions_mask := (\<lambda>s. [1, 0])\<rparr>"

section \<open>Sequencing\<close>

lemma bindE_Inr: "bindE (Inr x) f = f x"
  by (simp add: bindE_def)

section \<open>Rounding\<close>

text \<open>Rounding to nearest moves a number by at most half the spacing of the representable
  numbers around it: by at most \<open>2^-p\<close> of its magnitude above \<open>2^emin\<close>, and by at most
  \<open>2^(emin-p)\<close> below. It keeps the sign, keeps 0 and 1, and does not carry a number
  across a power of two.\<close>

lemma round_half_even_error: "\<bar>of_int (round_half_even t) - t\<bar> \<le> 1 / 2"
  unfolding round_half_even_def Let_def by (auto; linarith)

lemma round_half_even_of_int: "round_half_even (of_int z) = z"
  unfolding round_half_even_def Let_def by simp

lemma round_half_even_nonneg: "0 \<le> t \<Longrightarrow> 0 \<le> round_half_even t"
  unfolding round_half_even_def Let_def by auto

lemma ieee_round_nonneg: "0 \<le> x \<Longrightarrow> 0 \<le> ieee_round p emin x"
  unfolding ieee_round_def Let_def
  by (auto intro!: mult_nonneg_nonneg round_half_even_nonneg divide_nonneg_nonneg)

lemma ieee_round_quantum:
  assumes "x \<noteq> 0"
  shows "\<bar>ieee_round p emin x - x\<bar> \<le> 2 powr (of_int (max \<lfloor>log 2 \<bar>x\<bar>\<rfloor> emin) - real p)"
proof -
  let ?e = "max \<lfloor>log 2 \<bar>x\<bar>\<rfloor> emin"
  let ?q = "2 powr (of_int ?e - real p + 1) :: real"
  have q: "0 < ?q" by simp
  have "ieee_round p emin x - x = (of_int (round_half_even (x / ?q)) - x / ?q) * ?q"
    using assms q by (simp add: ieee_round_def Let_def algebra_simps)
  then have "\<bar>ieee_round p emin x - x\<bar> = \<bar>of_int (round_half_even (x / ?q)) - x / ?q\<bar> * ?q"
    using q by (simp add: abs_mult)
  also have "\<dots> \<le> 1 / 2 * ?q"
    using round_half_even_error [of "x / ?q"] q by (intro mult_right_mono) simp_all
  also have "\<dots> = 2 powr (of_int ?e - real p)"
    by (simp add: powr_add)
  finally show ?thesis .
qed

lemma ieee_round_error:
  "\<bar>ieee_round p emin x - x\<bar> \<le> 2 powr (- real p) * \<bar>x\<bar> + 2 powr (of_int emin - real p)"
proof (cases "x = 0")
  case True
  then show ?thesis by (simp add: ieee_round_def)
next
  case False
  let ?l = "\<lfloor>log 2 \<bar>x\<bar>\<rfloor>"
  have pos: "0 < \<bar>x\<bar>" using False by simp
  have "2 powr (of_int ?l) \<le> \<bar>x\<bar>"
    using floor_log_eq_powr_iff [of "\<bar>x\<bar>" 2 ?l] pos by simp
  then have a: "2 powr (of_int ?l - real p) \<le> 2 powr (- real p) * \<bar>x\<bar>"
    by (simp add: powr_diff powr_minus field_simps)
  have b: "0 \<le> 2 powr (- real p) * \<bar>x\<bar>" by simp
  have c: "0 \<le> (2::real) powr (of_int emin - real p)" by simp
  show ?thesis
  proof (cases "emin \<le> ?l")
    case True
    then have "max ?l emin = ?l" by simp
    with ieee_round_quantum [OF \<open>x \<noteq> 0\<close>, of p emin]
    have "\<bar>ieee_round p emin x - x\<bar> \<le> 2 powr (of_int ?l - real p)" by simp
    with a c show ?thesis by linarith
  next
    case False
    then have "max ?l emin = emin" by simp
    with ieee_round_quantum [OF \<open>x \<noteq> 0\<close>, of p emin]
    have "\<bar>ieee_round p emin x - x\<bar> \<le> 2 powr (of_int emin - real p)" by simp
    with b show ?thesis by linarith
  qed
qed

lemma ieee_round_binade:
  assumes "\<bar>x\<bar> < 2 powr (of_int k)" and "emin < k"
  shows "\<bar>ieee_round p emin x - x\<bar> \<le> 2 powr (of_int k - 1 - real p)"
proof (cases "x = 0")
  case True
  then show ?thesis by (simp add: ieee_round_def)
next
  case False
  let ?l = "\<lfloor>log 2 \<bar>x\<bar>\<rfloor>"
  have pos: "0 < \<bar>x\<bar>" using False by simp
  have "2 powr (of_int ?l) \<le> \<bar>x\<bar>"
    using floor_log_eq_powr_iff [of "\<bar>x\<bar>" 2 ?l] pos by simp
  with assms(1) have "2 powr (of_int ?l) < (2::real) powr (of_int k)" by linarith
  then have "?l < k" by simp
  with assms(2) have "max ?l emin \<le> k - 1" by simp
  then have "(2::real) powr (of_int (max ?l emin) - real p) \<le> 2 powr (of_int k - 1 - real p)"
    by (intro powr_mono) (simp_all, linarith)
  with ieee_round_quantum [OF False, of p emin] show ?thesis by linarith
qed

lemma ieee_round_eval:
  assumes "2 powr (of_int k) \<le> \<bar>x\<bar>" and "\<bar>x\<bar> < 2 powr (of_int k + 1)" and "emin \<le> k"
  shows "ieee_round p emin x =
      of_int (round_half_even (x / 2 powr (of_int k - real p + 1))) * 2 powr (of_int k - real p + 1)"
proof -
  have "0 < (2::real) powr (of_int k)" by simp
  with assms(1) have pos: "0 < \<bar>x\<bar>" by linarith
  then have "\<lfloor>log 2 \<bar>x\<bar>\<rfloor> = k"
    using floor_log_eq_powr_iff [of "\<bar>x\<bar>" 2 k] assms(1,2) by simp
  with assms(3) have "max \<lfloor>log 2 \<bar>x\<bar>\<rfloor> emin = k" by simp
  with pos show ?thesis by (simp add: ieee_round_def Let_def)
qed

lemma ieee_round_one: "0 < p \<Longrightarrow> emin \<le> 0 \<Longrightarrow> ieee_round p emin 1 = 1"
proof -
  assume p: "0 < p" and e: "emin \<le> 0"
  have m: "max 0 emin = 0" using e by simp
  have "(1::real) / 2 powr (1 - real p) = 2 powr (real (p - 1))"
    using p by (simp add: powr_diff powr_minus field_simps of_nat_diff)
  also have "\<dots> = of_int (2 ^ (p - 1))"
    by (simp add: powr_realpow)
  finally have t: "(1::real) / 2 powr (1 - real p) = of_int (2 ^ (p - 1))" .
  have "ieee_round p emin 1 = of_int (round_half_even (1 / 2 powr (1 - real p))) * 2 powr (1 - real p)"
    by (simp add: ieee_round_def m Let_def)
  also have "\<dots> = of_int (2 ^ (p - 1)) * 2 powr (1 - real p)"
    unfolding t round_half_even_of_int ..
  also have "\<dots> = 1"
    using t by (simp add: field_simps)
  finally show ?thesis .
qed

lemma float64_zero: "float64 0 = Inr 0"
  by (simp add: float64_def ieee_value_def ieee_round_def)

lemma float64_one: "float64 1 = Inr 1"
proof -
  have "(1::real) < 2 powr 1024"
    using powr_less_mono [of 0 1024 "2::real"] by simp
  then show ?thesis
    by (simp add: float64_def ieee_value_def ieee_round_one)
qed

lemma float64_small:
  assumes "0 \<le> x" and "x \<le> M" and "M \<le> 2 ^ 20"
  shows "\<exists>y. float64 x = Inr y \<and> 0 \<le> y \<and> \<bar>y - x\<bar> \<le> (M + 1) / 2 ^ 53"
proof -
  let ?r = "ieee_round 53 (- 1022) x"
  have a: "(2::real) powr (- 53) = 1 / 2 ^ 53"
    by (simp add: powr_minus powr_realpow [symmetric] inverse_eq_divide)
  have b: "(2::real) powr (- 1075) \<le> 2 powr (- 53)"
    by (intro powr_mono) simp_all
  have "\<bar>?r - x\<bar> \<le> 2 powr (- 53) * \<bar>x\<bar> + 2 powr (- 1075)"
    using ieee_round_error [of 53 "- 1022" x] by simp
  with b assms(1) have "\<bar>?r - x\<bar> \<le> 2 powr (- 53) * x + 2 powr (- 53)"
    by linarith
  then have "\<bar>?r - x\<bar> \<le> 1 / 2 ^ 53 * x + 1 / 2 ^ 53"
    unfolding a .
  also have "\<dots> = (x + 1) / 2 ^ 53"
    by (simp add: add_divide_distrib)
  finally have "\<bar>?r - x\<bar> \<le> (x + 1) / 2 ^ 53" .
  moreover have "(x + 1) / 2 ^ 53 \<le> (M + 1) / (2 ^ 53 :: real)"
    using assms(2) by (simp add: divide_right_mono)
  ultimately have err: "\<bar>?r - x\<bar> \<le> (M + 1) / 2 ^ 53" by linarith
  have nn: "0 \<le> ?r" using assms(1) by (rule ieee_round_nonneg)
  have "(M + 1) / 2 ^ 53 \<le> 1"
    using assms(3) by simp
  with err assms(2,3) have "?r \<le> 2 ^ 20 + 1" by linarith
  also have "\<dots> < (2::real) ^ 21" by simp
  also have "\<dots> = 2 powr 21" by (simp add: powr_realpow [symmetric])
  also have "\<dots> \<le> 2 powr 1024" by (intro powr_mono) simp_all
  finally have "?r < 2 powr 1024" .
  with nn have "float64 x = Inr ?r"
    by (simp add: float64_def ieee_value_def)
  with nn err show ?thesis by blast
qed

lemma round_half_even_ge: "of_int z \<le> t \<Longrightarrow> z \<le> round_half_even t"
proof -
  assume "of_int z \<le> t"
  then have "z \<le> \<lfloor>t\<rfloor>" by (simp add: le_floor_iff)
  moreover have "\<lfloor>t\<rfloor> \<le> round_half_even t"
    by (simp add: round_half_even_def Let_def)
  ultimately show ?thesis by linarith
qed

lemma round_half_even_le: "t \<le> of_int z \<Longrightarrow> round_half_even t \<le> z"
proof (cases "t = of_int z")
  case True
  then show ?thesis by (simp add: round_half_even_of_int)
next
  case False
  assume "t \<le> of_int z"
  with False have "t < of_int z" by simp
  then have "\<lfloor>t\<rfloor> < z" by (simp add: floor_less_iff)
  moreover have "round_half_even t \<le> \<lfloor>t\<rfloor> + 1"
    by (simp add: round_half_even_def Let_def)
  ultimately show ?thesis by linarith
qed

lemma round_half_even_add:
  assumes "0 \<le> r" and "r < 1 / 2"
  shows "round_half_even (of_int z + r) = z"
proof -
  have "\<lfloor>of_int z + r\<rfloor> = z" using assms by (simp add: floor_eq_iff)
  then show ?thesis using assms by (simp add: round_half_even_def Let_def)
qed

lemma ieee_round_abs_ge:
  assumes "2 powr (of_int k) \<le> \<bar>x\<bar>" and "emin \<le> k" and "0 < p"
  shows "2 powr (of_int k) \<le> \<bar>ieee_round p emin x\<bar>"
proof -
  let ?l = "\<lfloor>log 2 \<bar>x\<bar>\<rfloor>"
  let ?q = "2 powr (of_int ?l - real p + 1) :: real"
  have "0 < (2::real) powr (of_int k)" by simp
  with assms(1) have pos: "0 < \<bar>x\<bar>" by linarith
  then have x0: "x \<noteq> 0" by simp
  have lo: "2 powr (of_int ?l) \<le> \<bar>x\<bar>"
    using floor_log_eq_powr_iff [of "\<bar>x\<bar>" 2 ?l] pos by simp
  have "of_int k \<le> log 2 \<bar>x\<bar>"
    using assms(1) pos by (simp add: le_log_iff)
  then have kl: "k \<le> ?l" by (simp add: le_floor_iff)
  with assms(2) have mx: "max ?l emin = ?l" by simp
  have q: "0 < ?q" by simp
  have r: "ieee_round p emin x = of_int (round_half_even (x / ?q)) * ?q"
    using x0 by (simp add: ieee_round_def mx Let_def)
  have "2 powr (of_int ?l) / ?q = 2 powr (real p - 1)"
    by (simp add: powr_diff [symmetric])
  also have "\<dots> = 2 powr (real (p - 1))"
    using assms(3) by (simp add: of_nat_diff)
  also have "\<dots> = of_int (2 ^ (p - 1))"
    by (simp add: powr_realpow)
  finally have unit: "2 powr (of_int ?l) / ?q = of_int (2 ^ (p - 1))" .
  have scaled: "of_int (2 ^ (p - 1)) \<le> \<bar>x\<bar> / ?q"
    using lo q unfolding unit [symmetric] by (simp add: divide_right_mono)
  have "of_int (2 ^ (p - 1)) \<le> \<bar>of_int (round_half_even (x / ?q)) :: real\<bar>"
  proof (cases "0 \<le> x")
    case True
    with scaled have "of_int (2 ^ (p - 1)) \<le> x / ?q" by simp
    then have "2 ^ (p - 1) \<le> round_half_even (x / ?q)" by (rule round_half_even_ge)
    then have "(of_int (2 ^ (p - 1)) :: real) \<le> of_int (round_half_even (x / ?q))"
      by (simp only: of_int_le_iff)
    then show ?thesis by linarith
  next
    case False
    then have "\<bar>x\<bar> = - x" by simp
    with scaled have "x / ?q \<le> of_int (- (2 ^ (p - 1)))" by simp
    then have "round_half_even (x / ?q) \<le> - (2 ^ (p - 1))" by (rule round_half_even_le)
    then have "(of_int (round_half_even (x / ?q)) :: real) \<le> of_int (- (2 ^ (p - 1)))"
      by (simp only: of_int_le_iff)
    then show ?thesis by simp
  qed
  then have "of_int (2 ^ (p - 1)) * ?q \<le> \<bar>of_int (round_half_even (x / ?q)) :: real\<bar> * ?q"
    using q by (intro mult_right_mono) simp_all
  moreover have "of_int (2 ^ (p - 1)) * ?q = 2 powr (of_int ?l)"
    using unit q by (simp add: field_simps)
  moreover have "\<bar>ieee_round p emin x\<bar> = \<bar>of_int (round_half_even (x / ?q)) :: real\<bar> * ?q"
    unfolding r using q by (simp add: abs_mult)
  moreover have "(2::real) powr (of_int k) \<le> 2 powr (of_int ?l)"
    using kl by (intro powr_mono) simp_all
  ultimately show ?thesis by linarith
qed

lemma float32_Inr: "float32 x = Inr y \<Longrightarrow> y = round32 x"
  by (simp add: float32_def round32_def ieee_value_def Let_def split: if_splits)

lemma round32_close:
  assumes "\<bar>x\<bar> < 16"
  shows "\<bar>round32 x - x\<bar> \<le> 1 / 2 ^ 21"
proof -
  have p4: "(2::real) powr (of_int 4) = 16"
    using powr_realpow [of "2::real" 4] by simp
  have "\<bar>round32 x - x\<bar> \<le> 2 powr (of_int 4 - 1 - real 24)"
    unfolding round32_def using assms by (intro ieee_round_binade) (simp_all add: p4)
  also have "\<dots> = 2 powr (- 21)" by simp
  also have "\<dots> = 1 / 2 ^ 21"
    by (simp add: powr_minus powr_realpow [symmetric] inverse_eq_divide)
  finally show ?thesis .
qed

lemma round32_lt_16:
  assumes "\<bar>round32 x\<bar> < 16"
  shows "\<bar>x\<bar> < 16"
proof (rule ccontr)
  assume "\<not> \<bar>x\<bar> < 16"
  have p4: "(2::real) powr (of_int 4) = 16"
    using powr_realpow [of "2::real" 4] by simp
  from \<open>\<not> \<bar>x\<bar> < 16\<close> have "2 powr (of_int 4) \<le> \<bar>x\<bar>" unfolding p4 by simp
  then have "2 powr (of_int 4) \<le> \<bar>ieee_round 24 (- 126) x\<bar>"
    by (rule ieee_round_abs_ge) simp_all
  with assms show False unfolding p4 round32_def by simp
qed

lemma float32_eval:
  assumes "2 powr (of_int k) \<le> \<bar>x\<bar>" and "\<bar>x\<bar> < 2 powr (of_int k + 1)" and "- 126 \<le> k"
    and "x / 2 powr (of_int k - 23) = of_int z + r" and "0 \<le> r" and "r < 1 / 2"
    and "\<bar>of_int z * 2 powr (of_int k - 23) :: real\<bar> < 2 powr 128"
  shows "float32 x = Inr (of_int z * 2 powr (of_int k - 23))"
proof -
  have "ieee_round 24 (- 126) x =
      of_int (round_half_even (x / 2 powr (of_int k - real 24 + 1))) * 2 powr (of_int k - real 24 + 1)"
    using assms(1,2,3) by (rule ieee_round_eval)
  also have "of_int k - real 24 + 1 = (of_int k - 23 :: real)" by simp
  finally have "ieee_round 24 (- 126) x = of_int z * 2 powr (of_int k - 23)"
    unfolding assms(4) round_half_even_add [OF assms(5,6)] .
  with assms(7) show ?thesis
    by (simp add: float32_def ieee_value_def)
qed

section \<open>The PUCT scorer: resolved children\<close>

text \<open>
  Claim C4. When the child carries an outcome, the score is the Python expression
  \<^verbatim>\<open>child.outcome[child.player]\<close> and nothing else: changing the prior, the explore
  count, the total reward, the parent's explore count, \<open>c_init\<close> or \<open>c_base\<close> leaves the
  score unchanged.
\<close>

theorem ucb_score_outcome:
  assumes "outcome c = Some out"
  shows "alpha_zero_ucb_score c n (c_init, c_base) = py_getitem out (player c)
       \<and> alpha_zero_ucb_score (c\<lparr>prior := p', explore_count := e', total_reward := t'\<rparr>)
            n' (c_init', c_base') = alpha_zero_ucb_score c n (c_init, c_base)"
  using assms by (simp add: alpha_zero_ucb_score_def)

theorem ucb_score_outcome_witness:
  "alpha_zero_ucb_score
     \<lparr>action = 3, explore_count = 7, total_reward = 2, prior = 1 / 4,
      outcome = Some [1, - 1], player = 1\<rparr> 10 (5 / 4, 19652) = Inr (- 1)
   \<and> alpha_zero_ucb_score
     \<lparr>action = 3, explore_count = 0, total_reward = 9, prior = 1 / 2,
      outcome = Some [1, - 1], player = 1\<rparr> 0 (0, 0) = Inr (- 1)"
  using ucb_score_outcome [where c = "\<lparr>action = 3, explore_count = 7, total_reward = 2,
      prior = 1 / 4, outcome = Some [1, - 1], player = 1\<rparr>" and out = "[1, - 1]" and n = 10
      and c_init = "5 / 4" and c_base = 19652 and p' = "1 / 2" and e' = 0 and t' = 9
      and n' = 0 and c_init' = 0 and c_base' = 0]
  by (simp add: py_getitem_def)

section \<open>The PUCT scorer: unresolved children\<close>

text \<open>
  Claim C5. For a child without an outcome, with a non-negative explore count, a
  non-negative parent explore count and a positive \<open>c_base\<close> (where the formula is defined),
  the score is the prior term plus the exploitation term; the exploitation term is 0 when
  the explore count is 0, whatever the total reward, and the mean reward otherwise. The
  source obtains the zero case from \<^verbatim>\<open>explore_count and ...\<close>; the value is that of
  the explicit branch.
\<close>

theorem ucb_score_no_outcome:
  assumes "outcome c = None" and "0 \<le> explore_count c" and "0 \<le> n" and "0 < c_base"
  shows "alpha_zero_ucb_score c n (c_init, c_base) =
           Inr ((ln ((real_of_int n + c_base + 1) / c_base) + c_init) * sqrt (real_of_int n)
                  / (real_of_int (explore_count c) + 1) * prior c
                + (if explore_count c = 0 then 0
                   else total_reward c / real_of_int (explore_count c)))"
proof -
  let ?q = "(real_of_int n + c_base + 1) / c_base"
  have "0 < ?q"
    using assms by (simp add: divide_pos_pos add_pos_nonneg)
  then have l: "math_log ?q = Inr (ln ?q)"
    by (simp add: math_log_def)
  have q: "py_truediv (real_of_int n + c_base + 1) c_base = Inr ?q"
    using assms by (simp add: py_truediv_def)
  have s: "math_sqrt (real_of_int n) = Inr (sqrt (real_of_int n))"
    using assms by (simp add: math_sqrt_def)
  have "real_of_int (explore_count c + 1) \<noteq> 0"
    using assms by linarith
  then have f: "py_truediv (sqrt (real_of_int n)) (real_of_int (explore_count c + 1)) =
      Inr (sqrt (real_of_int n) / (real_of_int (explore_count c) + 1))"
    by (simp add: py_truediv_def)
  have v: "py_and (real_of_int (explore_count c))
        (py_truediv (total_reward c) (real_of_int (explore_count c))) =
      Inr (if explore_count c = 0 then 0 else total_reward c / real_of_int (explore_count c))"
    by (simp add: py_and_def py_truediv_def)
  show ?thesis
    unfolding alpha_zero_ucb_score_def
    by (simp only: assms(1) q l s f v bindE_def Let_def sum.case option.case prod.case
        times_divide_eq_right)
qed

theorem ucb_score_no_outcome_witness:
  "alpha_zero_ucb_score
     \<lparr>action = 0, explore_count = 0, total_reward = 5, prior = 1 / 2,
      outcome = None, player = 0\<rparr> 4 (1, 1) = Inr ((ln 6 + 1) * 2 / 1 * (1 / 2) + 0)
   \<and> alpha_zero_ucb_score
     \<lparr>action = 0, explore_count = 3, total_reward = 6, prior = 1 / 2,
      outcome = None, player = 0\<rparr> 4 (1, 1) = Inr ((ln 6 + 1) * 2 / 4 * (1 / 2) + 2)"
  using ucb_score_no_outcome [of "\<lparr>action = 0, explore_count = 0, total_reward = 5,
      prior = 1 / 2, outcome = None, player = 0\<rparr>" 4 1 1]
    ucb_score_no_outcome [of "\<lparr>action = 0, explore_count = 3, total_reward = 6,
      prior = 1 / 2, outcome = None, player = 0\<rparr>" 4 1 1]
  by simp

section \<open>Construction of the training controller\<close>

lemma toy_init:
  "AlphaZero_init (toy_game 2) toy_bot 10 0 1 ntr 2 rs = Inr toy_controller"
  by (simp add: AlphaZero_init_def toy_game_def toy_controller_def ReplayBuffer_init_def)

text \<open>
  Claim C1, as stated, fails on the code: a game with three players and a game with four
  players are rejected with one and the same exception, \<^verbatim>\<open>ValueError("Game must be a
  2-player game")\<close>, which therefore does not carry the actual number of players.
\<close>

theorem init_player_count_error_counterexample:
  "AlphaZero_init ((toy_game 1)\<lparr>num_players := 3\<rparr>) toy_bot 10 30 1 1 2 (None :: unit option)
     = Inl (ValueError ''Game must be a 2-player game'')
   \<and> AlphaZero_init ((toy_game 1)\<lparr>num_players := 4\<rparr>) toy_bot 10 30 1 1 2 (None :: unit option)
     = Inl (ValueError ''Game must be a 2-player game'')"
  by (simp add: AlphaZero_init_def toy_game_def)

text \<open>
  Claim C1, amended. For every game violating one of the five structural preconditions,
  construction raises an exception and returns no object; a wrong player count raises
  the fixed \<^verbatim>\<open>ValueError("Game must be a 2-player game")\<close>; and when all five
  preconditions hold, construction returns the object.
\<close>

theorem init_validation:
  "((num_players g \<noteq> 2 \<or> chance_mode (get_type g) \<noteq> DETERMINISTIC
       \<or> information (get_type g) \<noteq> PERFECT_INFORMATION
       \<or> dynamics (get_type g) \<noteq> SEQUENTIAL \<or> utility (get_type g) \<noteq> ZERO_SUM)
      \<longrightarrow> (\<exists>e. AlphaZero_init g b cap ast n r bs rs = Inl e))
   \<and> (num_players g \<noteq> 2
      \<longrightarrow> AlphaZero_init g b cap ast n r bs rs =
            Inl (ValueError ''Game must be a 2-player game''))
   \<and> (num_players g = 2 \<and> chance_mode (get_type g) = DETERMINISTIC
       \<and> information (get_type g) = PERFECT_INFORMATION
       \<and> dynamics (get_type g) = SEQUENTIAL \<and> utility (get_type g) = ZERO_SUM
      \<longrightarrow> AlphaZero_init g b cap ast n r bs rs =
            Inr \<lparr>bot = b, game = g, buffer = \<lparr>capacity = cap, items = []\<rparr>,
                 num_self_play_games = n, action_selection_transition = ast,
                 batch_size = bs\<rparr>)"
  by (auto simp: AlphaZero_init_def bindE_def getattr_def ReplayBuffer_init_def Let_def
      split: option.splits)

theorem init_validation_witness:
  "(\<exists>e. AlphaZero_init
          ((toy_game 1)\<lparr>get_type := (get_type (toy_game 1))\<lparr>dynamics := SIMULTANEOUS\<rparr>\<rparr>)
          toy_bot 10 30 1 1 2 (None :: unit option) = Inl e)
   \<and> AlphaZero_init ((toy_game 1)\<lparr>num_players := 3\<rparr>) toy_bot 10 30 1 1 2 (None :: unit option)
       = Inl (ValueError ''Game must be a 2-player game'')
   \<and> AlphaZero_init (toy_game 2) toy_bot 10 0 1 1 2 (None :: unit option) = Inr toy_controller"
  using
    init_validation [where g = "(toy_game 1)\<lparr>get_type :=
        (get_type (toy_game 1))\<lparr>dynamics := SIMULTANEOUS\<rparr>\<rparr>" and b = toy_bot and cap = 10
      and ast = 30 and n = 1 and r = 1 and bs = 2 and rs = "None :: unit option"]
    init_validation [where g = "(toy_game 1)\<lparr>num_players := 3\<rparr>" and b = toy_bot and cap = 10
      and ast = 30 and n = 1 and r = 1 and bs = 2 and rs = "None :: unit option"]
    init_validation [where g = "toy_game 2" and b = toy_bot and cap = 10
      and ast = 0 and n = 1 and r = 1 and bs = 2 and rs = "None :: unit option"]
  by (simp add: toy_game_def toy_controller_def)

text \<open>The faulty lookup behind the other four messages: the code formats
  \<^verbatim>\<open>game.dynamics\<close>, an attribute of the game object, where the value tested is
  \<^verbatim>\<open>game_info.dynamics\<close>. On an object without that attribute the exception is an
  \<^verbatim>\<open>AttributeError\<close>, not the \<^verbatim>\<open>ValueError\<close>.\<close>

lemma init_simultaneous_attribute_error:
  "AlphaZero_init
     ((toy_game 1)\<lparr>get_type := (get_type (toy_game 1))\<lparr>dynamics := SIMULTANEOUS\<rparr>\<rparr>)
     toy_bot 10 30 1 1 2 (None :: unit option) = Inl (AttributeError ''dynamics'')"
  by (simp add: AlphaZero_init_def toy_game_def getattr_def bindE_def)

text \<open>
  Claim C10. The \<open>random_state\<close> argument has no effect on construction: with the other
  arguments equal, any two values give the same result, whether an exception or an
  object, so nothing done with the object later can depend on it. The object has no field
  for it, and the action chosen by \<open>select_action\<close> is a function of the controller, the
  children, the move number and the next draw of numpy's global generator alone.
\<close>

theorem init_ignores_random_state:
  "AlphaZero_init g b cap ast n r bs rs = AlphaZero_init g b cap ast n r bs rs'
   \<and> (np_random w 0 = np_random w' 0 \<longrightarrow>
        map_sum id fst (select_action a children k w) =
        map_sum id fst (select_action a children k w'))"
proof -
  have "map_sum id fst (select_action a children k w) =
      map_sum id fst (select_action a children k w')" if "np_random w 0 = np_random w' 0"
    using that
    by (simp add: select_action_def bindE_def Let_def split: sum.splits)
  then show ?thesis
    by (simp add: AlphaZero_init_def)
qed

theorem init_ignores_random_state_witness:
  "AlphaZero_init (toy_game 2) toy_bot 10 30 1 1 2 (None :: nat option) =
     AlphaZero_init (toy_game 2) toy_bot 10 30 1 1 2 (Some (7 :: nat))
   \<and> map_sum id fst
        (select_action (toy_controller\<lparr>action_selection_transition := 30\<rparr>) toy_children 0
           toy_globals) =
      map_sum id fst
        (select_action (toy_controller\<lparr>action_selection_transition := 30\<rparr>) toy_children 0
           (toy_globals\<lparr>np_random := (\<lambda>i. if i = 0 then 1 / 2 else 0)\<rparr>))"
proof -
  have d: "np_random toy_globals 0 =
      np_random (toy_globals\<lparr>np_random := (\<lambda>i. if i = 0 then 1 / 2 else 0)\<rparr>) 0"
    by (simp add: toy_globals_def)
  from init_ignores_random_state [where g = "toy_game 2" and b = toy_bot and cap = 10
      and ast = 30 and n = 1 and r = 1 and bs = 2 and rs = "None :: nat option"
      and rs' = "Some (7 :: nat)" and w = toy_globals
      and w' = "toy_globals\<lparr>np_random := (\<lambda>i. if i = 0 then 1 / 2 else 0)\<rparr>"
      and a = "toy_controller\<lparr>action_selection_transition := 30\<rparr>"
      and children = toy_children and k = 0] d
  show ?thesis by blast
qed

section \<open>The target policy of a self-play step\<close>







section \<open>Error bounds of the float64 array operations\<close>

text \<open>Each rounded addition or division of non-negative numbers of magnitude at most \<open>M\<close>
  is within \<open>(M + 1) / 2^53\<close> of the exact result. From this: the softmax of at most 4096
  explore counts has partial sums within \<open>3 / 2^28\<close> of those of the exact softmax, and
  numpy's sampling from probabilities that sum to 1 within \<open>3 / 2^28\<close> returns an index
  whose interval of cumulative probabilities contains the draw up to \<open>2^-25\<close>.\<close>

lemma mapE_list_all2:
  "\<forall>x\<in>set xs. \<exists>y. f x = Inr y \<and> R x y \<Longrightarrow> \<exists>ys. mapE f xs = Inr ys \<and> list_all2 R xs ys"
proof (induction xs)
  case Nil
  show ?case by simp
next
  case (Cons x xs)
  from Cons.prems obtain y where y: "f x = Inr y" "R x y" by auto
  from Cons.prems have "\<forall>x\<in>set xs. \<exists>y. f x = Inr y \<and> R x y" by simp
  from Cons.IH [OF this] obtain ys where ys: "mapE f xs = Inr ys" "list_all2 R xs ys" by blast
  have "mapE f (x # xs) = Inr (y # ys)" by (simp add: y ys bindE_def)
  with y ys show ?case by simp
qed

lemma sum_list_close:
  fixes xs ys :: "real list"
  assumes "list_all2 (\<lambda>x y. \<bar>y - x\<bar> \<le> d) xs ys"
  shows "\<bar>sum_list ys - sum_list xs\<bar> \<le> real (length xs) * d"
  using assms
proof (induction rule: list_all2_induct)
  case Nil
  show ?case by simp
next
  case (Cons x xs y ys)
  have "\<bar>sum_list (y # ys) - sum_list (x # xs)\<bar> \<le> \<bar>y - x\<bar> + \<bar>sum_list ys - sum_list xs\<bar>"
    by simp
  also have "\<dots> \<le> d + real (length xs) * d"
    using Cons by (intro add_mono) simp_all
  also have "\<dots> = real (length (x # xs)) * d"
    by (simp add: algebra_simps)
  finally show ?case .
qed

lemma sum_take_close:
  fixes xs ys :: "real list"
  assumes "list_all2 (\<lambda>x y. \<bar>y - x\<bar> \<le> d) xs ys" and "0 \<le> d"
  shows "\<bar>sum_list (take k ys) - sum_list (take k xs)\<bar> \<le> real (length xs) * d"
proof -
  have "list_all2 (\<lambda>x y. \<bar>y - x\<bar> \<le> d) (take k xs) (take k ys)"
    using assms(1) by (rule list_all2_takeI)
  then have "\<bar>sum_list (take k ys) - sum_list (take k xs)\<bar> \<le> real (length (take k xs)) * d"
    by (rule sum_list_close)
  also have "\<dots> \<le> real (length xs) * d"
    using assms(2) by (intro mult_right_mono) simp_all
  finally show ?thesis .
qed

lemma sum_list_take_le:
  fixes xs :: "real list"
  assumes "\<forall>x\<in>set xs. 0 \<le> x"
  shows "0 \<le> sum_list (take k xs) \<and> sum_list (take k xs) \<le> sum_list xs"
proof -
  have t: "\<forall>x\<in>set (take k xs). 0 \<le> x" using assms by (meson in_set_takeD)
  have d: "\<forall>x\<in>set (drop k xs). 0 \<le> x" using assms by (meson in_set_dropD)
  have "sum_list xs = sum_list (take k xs) + sum_list (drop k xs)"
    by (metis append_take_drop_id sum_list.append)
  moreover have "0 \<le> sum_list (take k xs)" using t by (intro sum_list_nonneg) simp
  moreover have "0 \<le> sum_list (drop k xs)" using d by (intro sum_list_nonneg) simp
  ultimately show ?thesis by linarith
qed

lemma np_sum_from_bound:
  assumes "\<forall>x\<in>set xs. 0 \<le> x" and "0 \<le> acc"
    and "acc + sum_list xs + real (length xs) * b \<le> G" and "G \<le> 2 ^ 20"
    and "(G + 1) / 2 ^ 53 \<le> b" and "0 \<le> b"
  shows "\<exists>s. np_sum_from acc xs = Inr s \<and> 0 \<le> s
      \<and> \<bar>s - (acc + sum_list xs)\<bar> \<le> real (length xs) * b"
  using assms(1,2,3)
proof (induction xs arbitrary: acc)
  case Nil
  then show ?case by simp
next
  case (Cons x xs)
  note b0 = assms(6)
  from Cons.prems(1) have x0: "0 \<le> x" and xs0: "\<forall>x\<in>set xs. 0 \<le> x" by simp_all
  have s0: "0 \<le> sum_list xs" using xs0 by (intro sum_list_nonneg) simp
  define L where "L = real (length xs) * b"
  have l0: "0 \<le> L" using b0 by (simp add: L_def)
  have l1: "real (length (x # xs)) * b = b + L" by (simp add: L_def algebra_simps)
  from Cons.prems(3) have tot: "acc + (x + sum_list xs) + (b + L) \<le> G"
    unfolding l1 by simp
  have le: "acc + x \<le> G"
    using tot s0 l0 b0 by linarith
  from float64_small [OF _ le assms(4)] Cons.prems(2) x0
  obtain s1 where s1: "float64 (acc + x) = Inr s1" "0 \<le> s1"
    "\<bar>s1 - (acc + x)\<bar> \<le> (G + 1) / 2 ^ 53"
    by auto
  with assms(5) have e1: "\<bar>s1 - (acc + x)\<bar> \<le> b" by linarith
  have "s1 + sum_list xs + L \<le> G"
    using tot e1 by linarith
  then have "s1 + sum_list xs + real (length xs) * b \<le> G"
    by (simp add: L_def)
  from Cons.IH [OF xs0 s1(2) this]
  obtain s where s: "np_sum_from s1 xs = Inr s" "0 \<le> s"
    "\<bar>s - (s1 + sum_list xs)\<bar> \<le> real (length xs) * b"
    by blast
  have "np_sum_from acc (x # xs) = Inr s"
    by (simp add: s1 s bindE_def)
  moreover have "\<bar>s - (acc + sum_list (x # xs))\<bar> \<le> real (length (x # xs)) * b"
  proof -
    have "\<bar>s - (acc + (x + sum_list xs))\<bar> \<le> b + L"
      using e1 s(3) unfolding L_def by linarith
    then show ?thesis unfolding l1 by simp
  qed
  ultimately show ?case using s(2) by blast
qed

lemma np_cumsum_from_bound:
  assumes "\<forall>x\<in>set xs. 0 \<le> x" and "0 \<le> acc"
    and "acc + sum_list xs + real (length xs) * b \<le> G" and "G \<le> 2 ^ 20"
    and "(G + 1) / 2 ^ 53 \<le> b" and "0 \<le> b"
  shows "\<exists>cs. np_cumsum_from acc xs = Inr cs \<and> length cs = length xs
      \<and> (\<forall>k<length xs. 0 \<le> cs ! k
            \<and> \<bar>cs ! k - (acc + sum_list (take (Suc k) xs))\<bar> \<le> real (Suc k) * b)"
  using assms(1,2,3)
proof (induction xs arbitrary: acc)
  case Nil
  then show ?case by simp
next
  case (Cons x xs)
  note b0 = assms(6)
  from Cons.prems(1) have x0: "0 \<le> x" and xs0: "\<forall>x\<in>set xs. 0 \<le> x" by simp_all
  have s0: "0 \<le> sum_list xs" using xs0 by (intro sum_list_nonneg) simp
  define L where "L = real (length xs) * b"
  have l0: "0 \<le> L" using b0 by (simp add: L_def)
  have l1: "real (length (x # xs)) * b = b + L" by (simp add: L_def algebra_simps)
  from Cons.prems(3) have tot: "acc + (x + sum_list xs) + (b + L) \<le> G"
    unfolding l1 by simp
  have le: "acc + x \<le> G"
    using tot s0 l0 b0 by linarith
  from float64_small [OF _ le assms(4)] Cons.prems(2) x0
  obtain s1 where s1: "float64 (acc + x) = Inr s1" "0 \<le> s1"
    "\<bar>s1 - (acc + x)\<bar> \<le> (G + 1) / 2 ^ 53"
    by auto
  with assms(5) have e1: "\<bar>s1 - (acc + x)\<bar> \<le> b" by linarith
  have "s1 + sum_list xs + L \<le> G"
    using tot e1 by linarith
  then have "s1 + sum_list xs + real (length xs) * b \<le> G"
    by (simp add: L_def)
  from Cons.IH [OF xs0 s1(2) this]
  obtain cs where cs: "np_cumsum_from s1 xs = Inr cs" "length cs = length xs"
    and each: "\<And>k. k < length xs \<Longrightarrow> 0 \<le> cs ! k
            \<and> \<bar>cs ! k - (s1 + sum_list (take (Suc k) xs))\<bar> \<le> real (Suc k) * b"
    by blast
  have run: "np_cumsum_from acc (x # xs) = Inr (s1 # cs)"
    by (simp add: s1 cs bindE_def)
  have "0 \<le> (s1 # cs) ! k
      \<and> \<bar>(s1 # cs) ! k - (acc + sum_list (take (Suc k) (x # xs)))\<bar> \<le> real (Suc k) * b"
    if "k < length (x # xs)" for k
  proof (cases k)
    case 0
    then show ?thesis using s1(2) e1 by simp
  next
    case (Suc j)
    with that have "j < length xs" by simp
    from each [OF this] have c0: "0 \<le> cs ! j"
      and c1: "\<bar>cs ! j - (s1 + sum_list (take (Suc j) xs))\<bar> \<le> real (Suc j) * b"
      by simp_all
    have "real (Suc (Suc j)) * b = b + real (Suc j) * b" by (simp add: algebra_simps)
    moreover have "\<bar>cs ! j - (acc + (x + sum_list (take (Suc j) xs)))\<bar>
        \<le> b + real (Suc j) * b"
      using e1 c1 by linarith
    ultimately show ?thesis using Suc c0 by simp
  qed
  with run cs(2) show ?case by simp
qed

lemma np_divide_bound:
  assumes "0 < s" and "\<forall>x\<in>set xs. 0 \<le> x \<and> x / s \<le> M" and "M \<le> 2 ^ 20"
  shows "\<exists>ys. np_divide xs s = Inr ys
      \<and> list_all2 (\<lambda>x y. float64 (x / s) = Inr y \<and> 0 \<le> y \<and> \<bar>y - x / s\<bar> \<le> (M + 1) / 2 ^ 53)
           xs ys"
proof -
  have "\<exists>y. float64 (x / s) = Inr y
      \<and> (float64 (x / s) = Inr y \<and> 0 \<le> y \<and> \<bar>y - x / s\<bar> \<le> (M + 1) / 2 ^ 53)"
    if "x \<in> set xs" for x
  proof -
    from that assms(2) have "0 \<le> x" "x / s \<le> M" by simp_all
    with assms(1) have "0 \<le> x / s" by simp
    from float64_small [OF this \<open>x / s \<le> M\<close> assms(3)] show ?thesis by blast
  qed
  then have "\<exists>ys. mapE (\<lambda>x. float64 (x / s)) xs = Inr ys
      \<and> list_all2 (\<lambda>x y. float64 (x / s) = Inr y \<and> 0 \<le> y \<and> \<bar>y - x / s\<bar> \<le> (M + 1) / 2 ^ 53)
           xs ys"
    by (intro mapE_list_all2) blast
  with assms(1) show ?thesis by (simp add: np_divide_def)
qed

lemma np_exp_bound:
  assumes "d \<le> 0"
  shows "\<exists>e. np_exp d = Inr e \<and> 0 \<le> e \<and> \<bar>e - exp (real_of_int d)\<bar> \<le> 2 / 2 ^ 53
      \<and> (d = 0 \<longrightarrow> e = 1)"
proof (cases "d = 0")
  case True
  then show ?thesis by (simp add: np_exp_def float64_one)
next
  case False
  have "exp (real_of_int d) \<le> 1" using assms by simp
  from float64_small [OF _ this, of ] show ?thesis
    using False by (simp add: np_exp_def)
qed

lemma int64_id: "- (2 ^ 63) \<le> z \<Longrightarrow> z < 2 ^ 63 \<Longrightarrow> int64 z = z"
  by (simp add: int64_def)

lemma sum_list_le_length:
  fixes xs :: "real list"
  shows "\<forall>x\<in>set xs. x \<le> c \<Longrightarrow> sum_list xs \<le> real (length xs) * c"
  by (induction xs) (auto simp: algebra_simps)

lemma member_le_sum_list_real:
  fixes xs :: "real list"
  shows "x \<in> set xs \<Longrightarrow> \<forall>y\<in>set xs. 0 \<le> y \<Longrightarrow> x \<le> sum_list xs"
proof (induction xs)
  case Nil
  then show ?case by simp
next
  case (Cons a xs)
  have "0 \<le> sum_list xs" using Cons.prems(2) by (intro sum_list_nonneg) simp
  moreover have "0 \<le> a" using Cons.prems(2) by simp
  ultimately show ?case using Cons by auto
qed

lemma sum_list_take_divide:
  fixes xs :: "real list"
  shows "sum_list (take k (map (\<lambda>x. x / z) xs)) = sum_list (take k xs) / z"
proof -
  have "sum_list (map (\<lambda>x. x / z) ys) = sum_list ys / z" for ys :: "real list"
    by (induction ys) (auto simp: add_divide_distrib)
  then show ?thesis by (simp add: take_map)
qed

lemma ratio_close:
  fixes A A' Z S :: real
  assumes Z: "3 / 4 \<le> Z" and S: "1 \<le> S" and A0: "0 \<le> A'" and AS: "A' \<le> S"
    and a1: "\<bar>A - A'\<bar> \<le> a1" and a2: "\<bar>Z - S\<bar> \<le> a2"
  shows "\<bar>A / Z - A' / S\<bar> \<le> (a1 + a2) * (4 / 3)"
proof -
  have Zp: "0 < Z" and Sp: "0 < S" using Z S by linarith+
  have eq: "A / Z - A' / S = (A - A') / Z + (A' / S) * ((S - Z) / Z)"
    using Zp Sp by (simp add: field_simps)
  have r0: "0 \<le> A' / S" and r1: "A' / S \<le> 1"
    using A0 AS Sp by simp_all
  have inv: "1 / Z \<le> 4 / 3"
    using Z Zp by (simp add: field_simps)
  have t1: "\<bar>(A - A') / Z\<bar> \<le> a1 * (4 / 3)"
  proof -
    have "\<bar>(A - A') / Z\<bar> = \<bar>A - A'\<bar> * (1 / Z)" using Zp by simp
    also have "\<dots> \<le> a1 * (4 / 3)"
      using a1 inv Zp by (intro mult_mono) simp_all
    finally show ?thesis .
  qed
  have t2: "\<bar>(A' / S) * ((S - Z) / Z)\<bar> \<le> a2 * (4 / 3)"
  proof -
    have "\<bar>(S - Z) / Z\<bar> = \<bar>Z - S\<bar> * (1 / Z)" using Zp by (simp add: abs_minus_commute)
    also have "\<dots> \<le> a2 * (4 / 3)"
      using a2 inv Zp by (intro mult_mono) simp_all
    finally have b: "\<bar>(S - Z) / Z\<bar> \<le> a2 * (4 / 3)" .
    have "\<bar>(A' / S) * ((S - Z) / Z)\<bar> = (A' / S) * \<bar>(S - Z) / Z\<bar>"
      by (simp only: abs_mult abs_of_nonneg [OF r0])
    also have "\<dots> \<le> 1 * \<bar>(S - Z) / Z\<bar>"
      using r1 by (intro mult_right_mono) simp_all
    finally show ?thesis using b by linarith
  qed
  have "\<bar>A / Z - A' / S\<bar> \<le> \<bar>(A - A') / Z\<bar> + \<bar>(A' / S) * ((S - Z) / Z)\<bar>"
    unfolding eq by (rule abs_triangle_ineq)
  with t1 t2 show ?thesis by (simp add: algebra_simps)
qed

lemma np_softmax_bound:
  fixes logits :: "int list"
  assumes ne: "logits \<noteq> []" and len: "length logits \<le> 4096"
    and rng: "\<forall>x\<in>set logits. 0 \<le> x \<and> x < 2 ^ 63"
  defines "m \<equiv> Max (set logits)"
  defines "E \<equiv> map (\<lambda>x. exp (real_of_int (x - m))) logits"
  shows "\<exists>ps. np_softmax logits = Inr ps \<and> length ps = length logits \<and> (\<forall>p\<in>set ps. 0 \<le> p)
      \<and> (\<forall>k. \<bar>sum_list (take k ps) - sum_list (take k E) / sum_list E\<bar> \<le> 3 / 2 ^ 28)"
proof -
  define N where "N = real (length logits)"
  have N: "N \<le> 4096" "0 \<le> N" using len by (simp_all add: N_def)
  from ne obtain x0 xs0 where l: "logits = x0 # xs0" by (cases logits) auto
  have mx: "fold max (tl logits) (hd logits) = m"
    unfolding m_def l using Max.set_eq_fold [of x0 xs0] by simp
  have m_in: "m \<in> set logits" unfolding m_def using ne by (intro Max_in) simp_all
  have m_ge: "y \<le> m" if "y \<in> set logits" for y
    unfolding m_def using that by (intro Max_ge) simp_all
  define R where "R = (\<lambda>y e. 0 \<le> e \<and> \<bar>e - exp (real_of_int (y - m))\<bar> \<le> 2 / 2 ^ 53
      \<and> (y = m \<longrightarrow> e = (1::real)))"
  have "\<exists>e. np_exp (int64 (y - m)) = Inr e \<and> R y e" if y: "y \<in> set logits" for y
  proof -
    from y rng have "0 \<le> y" "y < 2 ^ 63" by simp_all
    moreover from m_in rng have "0 \<le> m" "m < 2 ^ 63" by simp_all
    ultimately have "- (2 ^ 63) \<le> y - m" "y - m < 2 ^ 63" by simp_all
    then have w: "int64 (y - m) = y - m" by (rule int64_id)
    have "y - m \<le> 0" using m_ge [OF y] by simp
    from np_exp_bound [OF this] show ?thesis unfolding w R_def by auto
  qed
  then have "\<exists>es. mapE (\<lambda>y. np_exp (int64 (y - m))) logits = Inr es \<and> list_all2 R logits es"
    by (intro mapE_list_all2) blast
  then obtain es where es: "mapE (\<lambda>y. np_exp (int64 (y - m))) logits = Inr es"
    and rel: "list_all2 R logits es"
    by blast
  have les: "length es = length logits" using rel by (simp add: list_all2_lengthD)
  have es_nth: "R (logits ! i) (es ! i)" if "i < length logits" for i
    using rel that by (simp add: list_all2_nthD)
  have es0: "0 \<le> e \<and> e \<le> 3 / 2" if "e \<in> set es" for e
  proof -
    from that obtain i where i: "i < length es" "es ! i = e" by (auto simp: in_set_conv_nth)
    with les es_nth [of i] have r: "R (logits ! i) e" by simp
    have "logits ! i \<in> set logits" using i les by simp
    then have x1: "exp (real_of_int (logits ! i - m)) \<le> 1" using m_ge by simp
    from r have e0: "0 \<le> e" and e1: "\<bar>e - exp (real_of_int (logits ! i - m))\<bar> \<le> 2 / 2 ^ 53"
      by (simp_all add: R_def)
    have "2 / 2 ^ 53 \<le> (1 / 2 :: real)" by simp
    with e1 x1 have "e \<le> 3 / 2" by linarith
    with e0 show ?thesis by simp
  qed
  have one_in: "1 \<in> set es"
  proof -
    from m_in obtain i where i: "i < length logits" "logits ! i = m"
      by (auto simp: in_set_conv_nth)
    with es_nth [of i] have "es ! i = 1" by (simp add: R_def)
    with i les show ?thesis by (metis nth_mem)
  qed
  have relE: "list_all2 (\<lambda>X e. \<bar>e - X\<bar> \<le> 2 / 2 ^ 53) E es"
    unfolding E_def list_all2_map1 using rel
    by (rule list_all2_mono) (simp add: R_def)
  have lE: "length E = length logits" by (simp add: E_def)
  have E0: "\<forall>X\<in>set E. 0 \<le> X" by (simp add: E_def)
  have "(\<lambda>x. exp (real_of_int (x - m))) m \<in> (\<lambda>x. exp (real_of_int (x - m))) ` set logits"
    using m_in by (rule imageI)
  then have "1 \<in> set E" by (simp add: E_def)
  then have S1: "1 \<le> sum_list E" using E0 by (rule member_le_sum_list_real)
  have Ses1: "1 \<le> sum_list es"
    using one_in es0 by (intro member_le_sum_list_real) auto
  have "sum_list es \<le> real (length es) * (3 / 2)"
    using es0 by (intro sum_list_le_length) auto
  then have Ses_le: "sum_list es \<le> N * (3 / 2)" by (simp add: les N_def)
  have dES: "\<bar>sum_list es - sum_list E\<bar> \<le> N * (2 / 2 ^ 53)"
    using sum_list_close [OF relE] by (simp add: lE N_def)
  from es0 one_in obtain e0 rest where er: "es = e0 # rest" by (cases es) auto
  have lrest: "real (length rest) \<le> N" using les er by (simp add: N_def)
  have "\<exists>Z. np_sum_from e0 rest = Inr Z \<and> 0 \<le> Z
      \<and> \<bar>Z - (e0 + sum_list rest)\<bar> \<le> real (length rest) * (1 / 2 ^ 39)"
  proof (rule np_sum_from_bound [where G = 8192])
    show "\<forall>x\<in>set rest. 0 \<le> x" using es0 er by simp
    show "0 \<le> e0" using es0 er by simp
    have "real (length rest) * (1 / 2 ^ 39) \<le> N * (1 / 2 ^ 39)"
      using lrest by (intro mult_right_mono) simp_all
    with Ses_le N show "e0 + sum_list rest + real (length rest) * (1 / 2 ^ 39) \<le> 8192"
      unfolding er by simp
  qed simp_all
  then obtain Z where Z: "np_sum_from e0 rest = Inr Z"
    and dZ0: "\<bar>Z - (e0 + sum_list rest)\<bar> \<le> real (length rest) * (1 / 2 ^ 39)"
    by blast
  have sumZ: "np_sum es = Inr Z" by (simp add: np_sum_def er Z)
  have "real (length rest) * (1 / 2 ^ 39) \<le> N * (1 / 2 ^ 39)"
    using lrest by (intro mult_right_mono) simp_all
  with dZ0 have dZ: "\<bar>Z - sum_list es\<bar> \<le> N * (1 / 2 ^ 39)"
    unfolding er by simp
  have "N * (1 / 2 ^ 39) \<le> 1 / 4" using N by simp
  with dZ Ses1 have Z34: "3 / 4 \<le> Z" by linarith
  have dZS: "\<bar>Z - sum_list E\<bar> \<le> N * (1 / 2 ^ 39) + N * (2 / 2 ^ 53)"
    using dZ dES by linarith
  have "\<exists>ps. np_divide es Z = Inr ps
      \<and> list_all2 (\<lambda>x y. float64 (x / Z) = Inr y \<and> 0 \<le> y \<and> \<bar>y - x / Z\<bar> \<le> (2 + 1) / 2 ^ 53)
           es ps"
  proof (rule np_divide_bound)
    show "0 < Z" using Z34 by linarith
    show "\<forall>x\<in>set es. 0 \<le> x \<and> x / Z \<le> 2"
    proof
      fix e assume "e \<in> set es"
      then have "0 \<le> e" "e \<le> 3 / 2" using es0 by simp_all
      with Z34 show "0 \<le> e \<and> e / Z \<le> 2" by (simp add: field_simps)
    qed
  qed simp
  then obtain ps where ps: "np_divide es Z = Inr ps"
    and relp: "list_all2 (\<lambda>x y. float64 (x / Z) = Inr y \<and> 0 \<le> y
        \<and> \<bar>y - x / Z\<bar> \<le> (2 + 1) / 2 ^ 53) es ps"
    by blast
  have run: "np_softmax logits = Inr ps"
    using ne by (simp add: np_softmax_def mx Let_def es sumZ ps bindE_def)
  have lps: "length ps = length logits" using relp les by (simp add: list_all2_lengthD)
  have ps0: "\<forall>p\<in>set ps. 0 \<le> p"
  proof
    fix p assume "p \<in> set ps"
    then obtain i where i: "i < length ps" "ps ! i = p" by (auto simp: in_set_conv_nth)
    from relp have "length es = length ps" by (rule list_all2_lengthD)
    with i have "i < length es" by simp
    from list_all2_nthD [OF relp this] have "0 \<le> ps ! i" by simp
    with i show "0 \<le> p" by simp
  qed
  have relq: "list_all2 (\<lambda>q p. \<bar>p - q\<bar> \<le> 3 / 2 ^ 53) (map (\<lambda>e. e / Z) es) ps"
    unfolding list_all2_map1 using relp
    by (rule list_all2_mono) simp
  have bound: "\<bar>sum_list (take k ps) - sum_list (take k E) / sum_list E\<bar> \<le> 3 / 2 ^ 28" for k
  proof -
    have "\<bar>sum_list (take k ps) - sum_list (take k (map (\<lambda>e. e / Z) es))\<bar>
        \<le> real (length (map (\<lambda>e. e / Z) es)) * (3 / 2 ^ 53)"
      using relq by (rule sum_take_close) simp
    then have b1: "\<bar>sum_list (take k ps) - sum_list (take k es) / Z\<bar> \<le> N * (3 / 2 ^ 53)"
      by (simp add: sum_list_take_divide les N_def)
    have "\<bar>sum_list (take k es) - sum_list (take k E)\<bar> \<le> real (length E) * (2 / 2 ^ 53)"
      using relE by (rule sum_take_close) simp
    then have a1: "\<bar>sum_list (take k es) - sum_list (take k E)\<bar> \<le> N * (2 / 2 ^ 53)"
      by (simp add: lE N_def)
    have tk: "0 \<le> sum_list (take k E)" "sum_list (take k E) \<le> sum_list E"
      using sum_list_take_le [OF E0, of k] by simp_all
    have b2: "\<bar>sum_list (take k es) / Z - sum_list (take k E) / sum_list E\<bar>
        \<le> (N * (2 / 2 ^ 53) + (N * (1 / 2 ^ 39) + N * (2 / 2 ^ 53))) * (4 / 3)"
      using Z34 S1 tk a1 dZS by (rule ratio_close)
    from b1 b2 have "\<bar>sum_list (take k ps) - sum_list (take k E) / sum_list E\<bar>
        \<le> N * (3 / 2 ^ 53) + (N * (2 / 2 ^ 53) + (N * (1 / 2 ^ 39) + N * (2 / 2 ^ 53))) * (4 / 3)"
      by linarith
    also have "\<dots> \<le> 3 / 2 ^ 28"
      using N by simp
    finally show ?thesis .
  qed
  from run lps ps0 bound show ?thesis by blast
qed

lemma takeWhile_length_le:
  assumes "j < length xs" and "\<not> P (xs ! j)"
  shows "length (takeWhile P xs) \<le> j"
proof (rule ccontr)
  assume "\<not> length (takeWhile P xs) \<le> j"
  then have j: "j < length (takeWhile P xs)" by simp
  then have "takeWhile P xs ! j \<in> set (takeWhile P xs)" by (rule nth_mem)
  then have "P (takeWhile P xs ! j)" by (rule set_takeWhileD [THEN conjunct2])
  moreover have "takeWhile P xs ! j = xs ! j" using j by (rule takeWhile_nth)
  ultimately show False using assms(2) by simp
qed

lemma scale_close:
  fixes c L :: real
  assumes "0 \<le> c" and "c \<le> 9 / 8" and "3 / 4 \<le> L" and "\<bar>L - 1\<bar> \<le> e"
  shows "\<bar>c / L - c\<bar> \<le> e * (3 / 2)"
proof -
  have Lp: "0 < L" using assms(3) by linarith
  have eq: "c / L - c = (c / L) * (1 - L)"
    using Lp by (simp add: field_simps)
  have r0: "0 \<le> c / L" using assms(1) Lp by simp
  have r1: "c / L \<le> 3 / 2"
    using assms(2,3) Lp by (simp add: field_simps)
  have "\<bar>c / L - c\<bar> = (c / L) * \<bar>1 - L\<bar>"
    unfolding eq by (simp only: abs_mult abs_of_nonneg [OF r0])
  also have "\<dots> \<le> (3 / 2) * e"
    using r0 r1 assms(4) by (intro mult_mono) (simp_all add: abs_minus_commute)
  finally show ?thesis by (simp add: mult.commute)
qed

lemma np_random_choice_bound:
  assumes ne: "ps \<noteq> []" and len: "length ps \<le> 4096" and nn: "\<forall>p\<in>set ps. 0 \<le> p"
    and one: "\<bar>sum_list ps - 1\<bar> \<le> 3 / 2 ^ 28" and lo: "0 \<le> u" and hi: "u < 1"
  shows "\<exists>k. np_random_choice ps u = Inr k \<and> k < length ps
      \<and> sum_list (take k ps) - 1 / 2 ^ 25 \<le> u \<and> u < sum_list (take (Suc k) ps) + 1 / 2 ^ 25"
proof -
  from ne obtain p0 rest where pr: "ps = p0 # rest" by (cases ps) auto
  define n where "n = length ps"
  have n: "0 < n" "n \<le> 4096" using ne len by (simp_all add: n_def)
  have sum_hi: "sum_list ps \<le> 1 + 3 / 2 ^ 28" using one by linarith
  have lrest: "real (length rest) \<le> 4096" using len pr by simp
  have "\<exists>cs. np_cumsum_from p0 rest = Inr cs \<and> length cs = length rest
      \<and> (\<forall>k<length rest. 0 \<le> cs ! k
            \<and> \<bar>cs ! k - (p0 + sum_list (take (Suc k) rest))\<bar> \<le> real (Suc k) * (3 / 2 ^ 53))"
  proof (rule np_cumsum_from_bound [where G = 2])
    show "\<forall>x\<in>set rest. 0 \<le> x" using nn pr by simp
    show "0 \<le> p0" using nn pr by simp
    have "real (length rest) * (3 / 2 ^ 53) \<le> 4096 * (3 / 2 ^ 53)"
      using lrest by (intro mult_right_mono) simp_all
    also have "\<dots> \<le> 1 / 2" by simp
    finally have "real (length rest) * (3 / 2 ^ 53) \<le> 1 / 2" .
    moreover have "3 / 2 ^ 28 \<le> (1 / 2 :: real)" by simp
    ultimately show "p0 + sum_list rest + real (length rest) * (3 / 2 ^ 53) \<le> 2"
      using sum_hi unfolding pr by simp
  qed simp_all
  then obtain cs where cs: "np_cumsum_from p0 rest = Inr cs" and lcs: "length cs = length rest"
    and each: "\<And>k. k < length rest \<Longrightarrow> 0 \<le> cs ! k
            \<and> \<bar>cs ! k - (p0 + sum_list (take (Suc k) rest))\<bar> \<le> real (Suc k) * (3 / 2 ^ 53)"
    by blast
  define cdf where "cdf = p0 # cs"
  have cum: "np_cumsum ps = Inr cdf"
    by (simp add: np_cumsum_def pr cs bindE_def cdf_def)
  have lcdf: "length cdf = n" by (simp add: cdf_def lcs n_def pr)
  have cdf_nth: "0 \<le> cdf ! j \<and> \<bar>cdf ! j - sum_list (take (Suc j) ps)\<bar> \<le> 1 / 2 ^ 39"
    if j: "j < n" for j
  proof (cases j)
    case 0
    then show ?thesis using nn by (simp add: cdf_def pr)
  next
    case (Suc k)
    with j have k: "k < length rest" by (simp add: n_def pr)
    from each [OF k] have c0: "0 \<le> cs ! k"
      and c1: "\<bar>cs ! k - (p0 + sum_list (take (Suc k) rest))\<bar> \<le> real (Suc k) * (3 / 2 ^ 53)"
      by simp_all
    have "real (Suc k) \<le> 4096" using k lrest by simp
    then have "real (Suc k) * (3 / 2 ^ 53) \<le> 4096 * (3 / 2 ^ 53)"
      by (intro mult_right_mono) simp_all
    also have "\<dots> \<le> 1 / 2 ^ 39" by simp
    finally have "real (Suc k) * (3 / 2 ^ 53) \<le> 1 / 2 ^ 39" .
    with c1 have "\<bar>cs ! k - (p0 + sum_list (take (Suc k) rest))\<bar> \<le> 1 / 2 ^ 39" by linarith
    with c0 Suc show ?thesis by (simp add: cdf_def pr)
  qed
  have take_le: "sum_list (take k ps) \<le> sum_list ps" for k
    using sum_list_take_le [OF nn, of k] by simp
  have c98: "0 \<le> cdf ! j \<and> cdf ! j \<le> 9 / 8" if j: "j < n" for j
  proof -
    from cdf_nth [OF j] have c0: "0 \<le> cdf ! j"
      and c1: "\<bar>cdf ! j - sum_list (take (Suc j) ps)\<bar> \<le> 1 / 2 ^ 39" by simp_all
    have "1 / 2 ^ 39 + 3 / 2 ^ 28 \<le> (1 / 8 :: real)" by simp
    with c1 take_le [of "Suc j"] sum_hi have "cdf ! j \<le> 9 / 8" by linarith
    with c0 show ?thesis by simp
  qed
  define L where "L = last cdf"
  have "cdf \<noteq> []" by (simp add: cdf_def)
  then have "last cdf = cdf ! (length cdf - 1)" by (rule last_conv_nth)
  then have Ln: "L = cdf ! (n - 1)"
    unfolding L_def lcdf .
  have n1: "n - 1 < n" using n(1) by simp
  have "take (Suc (n - 1)) ps = ps" using n(1) by (simp add: n_def)
  with cdf_nth [OF n1] have dL: "\<bar>L - sum_list ps\<bar> \<le> 1 / 2 ^ 39"
    by (simp add: Ln)
  have "1 / 2 ^ 39 + 3 / 2 ^ 28 \<le> (1 / 2 ^ 26 :: real)" by simp
  with dL one have L1: "\<bar>L - 1\<bar> \<le> 1 / 2 ^ 26" by linarith
  have "1 / 2 ^ 26 \<le> (1 / 4 :: real)" by simp
  with L1 have L34: "3 / 4 \<le> L" by linarith
  then have Lp: "0 < L" by linarith
  have "\<exists>ys. np_divide cdf L = Inr ys
      \<and> list_all2 (\<lambda>x y. float64 (x / L) = Inr y \<and> 0 \<le> y \<and> \<bar>y - x / L\<bar> \<le> (2 + 1) / 2 ^ 53)
           cdf ys"
  proof (rule np_divide_bound)
    show "0 < L" by (rule Lp)
    show "\<forall>x\<in>set cdf. 0 \<le> x \<and> x / L \<le> 2"
    proof
      fix c assume "c \<in> set cdf"
      then obtain j where "j < length cdf" "cdf ! j = c" by (auto simp: in_set_conv_nth)
      with c98 [of j] lcdf have "0 \<le> c" "c \<le> 9 / 8" by simp_all
      with L34 Lp show "0 \<le> c \<and> c / L \<le> 2" by (simp add: field_simps)
    qed
  qed simp
  then obtain cdf' where dv: "np_divide cdf L = Inr cdf'"
    and rel: "list_all2 (\<lambda>x y. float64 (x / L) = Inr y \<and> 0 \<le> y
        \<and> \<bar>y - x / L\<bar> \<le> (2 + 1) / 2 ^ 53) cdf cdf'"
    by blast
  have lcdf': "length cdf' = n" using rel lcdf by (simp add: list_all2_lengthD)
  have rel_nth: "float64 (cdf ! j / L) = Inr (cdf' ! j) \<and> \<bar>cdf' ! j - cdf ! j / L\<bar> \<le> 3 / 2 ^ 53"
    if "j < n" for j
  proof -
    from that lcdf have "j < length cdf" by simp
    from list_all2_nthD [OF rel this] show ?thesis by simp
  qed
  have cdf'_nth: "\<bar>cdf' ! j - sum_list (take (Suc j) ps)\<bar> \<le> 1 / 2 ^ 25" if j: "j < n" for j
  proof -
    from rel_nth [OF j] have a: "\<bar>cdf' ! j - cdf ! j / L\<bar> \<le> 3 / 2 ^ 53" by simp
    from c98 [OF j] have "0 \<le> cdf ! j" "cdf ! j \<le> 9 / 8" by simp_all
    then have b: "\<bar>cdf ! j / L - cdf ! j\<bar> \<le> 1 / 2 ^ 26 * (3 / 2)"
      using L34 L1 by (rule scale_close)
    from cdf_nth [OF j] have c: "\<bar>cdf ! j - sum_list (take (Suc j) ps)\<bar> \<le> 1 / 2 ^ 39" by simp
    have "3 / 2 ^ 53 + 1 / 2 ^ 26 * (3 / 2) + 1 / 2 ^ 39 \<le> (1 / 2 ^ 25 :: real)" by simp
    with a b c show ?thesis by linarith
  qed
  have last1: "cdf' ! (n - 1) = 1"
  proof -
    from rel_nth [OF n1] have "float64 (cdf ! (n - 1) / L) = Inr (cdf' ! (n - 1))" by simp
    moreover have "cdf ! (n - 1) / L = 1" using Ln Lp by simp
    ultimately show ?thesis by (simp add: float64_one)
  qed
  define k where "k = length (takeWhile (\<lambda>c. c \<le> u) cdf')"
  have nl: "\<not> cdf' ! (n - 1) \<le> u" using last1 hi by simp
  have "n - 1 < length cdf'" using n1 lcdf' by simp
  with nl have "k \<le> n - 1"
    unfolding k_def by (intro takeWhile_length_le)
  with n1 have kn: "k < n" by simp
  have "\<not> cdf' ! k \<le> u"
    unfolding k_def by (rule nth_length_takeWhile) (use kn lcdf' k_def in simp)
  with cdf'_nth [OF kn] have up: "u < sum_list (take (Suc k) ps) + 1 / 2 ^ 25" by linarith
  have low: "sum_list (take k ps) - 1 / 2 ^ 25 \<le> u"
  proof (cases k)
    case 0
    with lo show ?thesis by simp
  next
    case (Suc j)
    then have j: "j < length (takeWhile (\<lambda>c. c \<le> u) cdf')" unfolding k_def by simp
    then have "takeWhile (\<lambda>c. c \<le> u) cdf' ! j \<in> set (takeWhile (\<lambda>c. c \<le> u) cdf')"
      by (rule nth_mem)
    then have "takeWhile (\<lambda>c. c \<le> u) cdf' ! j \<le> u"
      by (rule set_takeWhileD [THEN conjunct2])
    moreover have "takeWhile (\<lambda>c. c \<le> u) cdf' ! j = cdf' ! j" using j by (rule takeWhile_nth)
    ultimately have le: "cdf' ! j \<le> u" by simp
    have "j < n" using Suc kn by simp
    from cdf'_nth [OF this] le have "sum_list (take (Suc j) ps) - 1 / 2 ^ 25 \<le> u"
      by linarith
    then show ?thesis unfolding Suc .
  qed
  have nx: "\<not> list_ex (\<lambda>x. x < 0) ps"
    using nn by (auto simp: list_ex_iff)
  have "3 / 2 ^ 28 \<le> (1 / 2 ^ 26 :: real)" by simp
  with one have ok: "\<not> 1 / 2 ^ 26 < \<bar>sum_list ps - 1\<bar>" by linarith
  have "np_random_choice ps u = Inr k"
    unfolding np_random_choice_def k_def
    using ne nx ok by (simp add: cum bindE_def dv L_def [symmetric])
  with kn low up show ?thesis unfolding n_def by blast
qed

lemma round_half_even_small:
  assumes "0 \<le> t" and "t < 1 / 2"
  shows "round_half_even t = 0"
proof -
  have "\<lfloor>t\<rfloor> = 0" using assms by (simp add: floor_eq_iff)
  then show ?thesis using assms by (simp add: round_half_even_def Let_def)
qed

lemma ieee_round_underflow:
  assumes "0 < x" and "x < 2 powr (of_int emin - real p)"
  shows "ieee_round p emin x = 0"
proof -
  let ?q = "2 powr (of_int emin - real p + 1) :: real"
  have "(2::real) powr (of_int emin - real p) \<le> 2 powr (of_int emin)"
    by (intro powr_mono) simp_all
  with assms(2) have "x < 2 powr (of_int emin)" by linarith
  then have "log 2 x < of_int emin"
    using assms(1) by (simp add: log_less_iff)
  then have "\<lfloor>log 2 x\<rfloor> < emin" by linarith
  then have mx: "max \<lfloor>log 2 x\<rfloor> emin = emin" by simp
  have q: "?q = 2 * 2 powr (of_int emin - real p)"
    by (simp add: powr_add)
  have t0: "0 < x / ?q" using assms(1) by simp
  have "x / ?q < 1 / 2"
    unfolding q using assms(2) by (simp add: field_simps)
  with t0 have "round_half_even (x / ?q) = 0"
    by (intro round_half_even_small) simp_all
  then show ?thesis
    using assms(1) by (simp add: ieee_round_def mx Let_def)
qed

lemma ln_2_less: "ln (2::real) < 93 / 100"
proof -
  have "1 + (93 / 100) + (93 / 100)\<^sup>2 / 2 \<le> exp (93 / 100 :: real)"
    by (rule exp_lower_Taylor_quadratic) simp
  then have "(2::real) < exp (93 / 100)" by (simp add: power2_eq_square)
  then have "exp (ln 2) < exp (93 / 100 :: real)" by simp
  then show ?thesis by (simp only: exp_less_cancel_iff)
qed

lemma np_exp_underflow: "np_exp (- 1000) = Inr 0"
proof -
  have "(- 1075) * ln (2::real) > - 1000" using ln_2_less by simp
  then have "exp (- 1000 :: real) < exp ((- 1075) * ln 2)" by simp
  also have "\<dots> = 2 powr (- 1075)" by (simp add: powr_def mult.commute)
  finally have "exp (- 1000 :: real) < 2 powr (of_int (- 1022) - real 53)" by simp
  then have "ieee_round 53 (- 1022) (exp (- 1000)) = 0"
    by (intro ieee_round_underflow) simp_all
  then show ?thesis by (simp add: np_exp_def float64_def ieee_value_def)
qed

lemma np_exp_overflow:
  assumes "1000 \<le> x"
  shows "np_exp x = Inl FloatingPointError"
proof -
  let ?x = "exp (real_of_int x)"
  let ?r = "ieee_round 53 (- 1022) ?x"
  have "1025 * ln (2::real) < 1000" using ln_2_less by simp
  also have "\<dots> \<le> real_of_int x" using assms by simp
  finally have "exp (1025 * ln (2::real)) < ?x" by simp
  moreover have "exp (1025 * ln (2::real)) = 2 powr 1025" by (simp add: powr_def mult.commute)
  ultimately have big: "2 powr 1025 < ?x" by simp
  have a: "(2::real) powr (- 53) \<le> 1 / 4"
    using powr_mono [of "- 53" "- 2" "2::real"] by (simp add: powr_minus inverse_eq_divide)
  have b: "(2::real) powr (- 1075) \<le> 2 powr 1023"
    by (intro powr_mono) simp_all
  have c: "(2::real) powr 1025 = 4 * 2 powr 1023"
    using powr_add [of "2::real" 2 1023] by simp
  have d: "(2::real) powr 1024 = 2 * 2 powr 1023"
    using powr_add [of "2::real" 1 1023] by simp
  have "\<bar>?r - ?x\<bar> \<le> 2 powr (- 53) * \<bar>?x\<bar> + 2 powr (- 1075)"
    using ieee_round_error [of 53 "- 1022" ?x] by simp
  moreover have "2 powr (- 53) * \<bar>?x\<bar> \<le> 1 / 4 * ?x"
    using a by (simp add: mult_right_mono)
  ultimately have "?x - (1 / 4 * ?x + 2 powr 1023) \<le> ?r" using b by linarith
  with big c d have "2 powr 1024 \<le> ?r" by linarith
  then have "2 powr 1024 \<le> \<bar>?r\<bar>" by linarith
  then show ?thesis by (simp add: np_exp_def float64_def ieee_value_def)
qed

section \<open>Action selection in self-play\<close>

lemma not_tuple_less_trans:
  "\<not> tuple_less a b \<Longrightarrow> \<not> tuple_less b c \<Longrightarrow> \<not> tuple_less a c"
  by (auto simp: tuple_less_def)

lemma fold_tuple_max:
  "fold (\<lambda>y m. if tuple_less m y then y else m) rest x \<in> set (x # rest)
   \<and> (\<forall>y\<in>set (x # rest). \<not> tuple_less (fold (\<lambda>y m. if tuple_less m y then y else m) rest x) y)"
proof (induction rest arbitrary: x)
  case Nil
  show ?case by (simp add: tuple_less_def)
next
  case (Cons y ys)
  let ?f = "\<lambda>y m. if tuple_less m y then y else m"
  let ?x' = "?f y x"
  let ?r = "fold ?f ys ?x'"
  from Cons.IH [of ?x'] have mem: "?r \<in> set (?x' # ys)"
    and top: "\<forall>z\<in>set (?x' # ys). \<not> tuple_less ?r z" by blast+
  have x'x: "\<not> tuple_less ?x' x" and x'y: "\<not> tuple_less ?x' y"
    by (auto simp: tuple_less_def)
  from top have rx': "\<not> tuple_less ?r ?x'" by simp
  have rx: "\<not> tuple_less ?r x" by (rule not_tuple_less_trans [OF rx' x'x])
  have ry: "\<not> tuple_less ?r y" by (rule not_tuple_less_trans [OF rx' x'y])
  have "?x' = x \<or> ?x' = y" by simp
  with mem have "?r \<in> set (x # y # ys)" by auto
  moreover have "\<forall>z\<in>set (x # y # ys). \<not> tuple_less ?r z"
    using rx ry top by simp
  ultimately show ?case by simp
qed

lemma py_max_spec:
  assumes "xs \<noteq> []"
  shows "\<exists>m. py_max xs = Inr m \<and> m \<in> set xs \<and> (\<forall>y\<in>set xs. \<not> tuple_less m y)"
proof -
  from assms obtain x rest where xs: "xs = x # rest" by (cases xs) auto
  show ?thesis
    unfolding xs py_max_def using fold_tuple_max [of rest x] by simp
qed

lemma softmax_take:
  "sum_list (take k (map (\<lambda>c. f c / z) children)) = sum_list (take k (map f children)) / (z::real)"
proof -
  have "map (\<lambda>c. f c / z) children = map (\<lambda>x. x / z) (map f children)" by simp
  then show ?thesis by (simp only: sum_list_take_divide)
qed

text \<open>
  Claim C6. For a non-empty list of children. Below the transition threshold, with at
  most 4096 children, explore counts in the \<^verbatim>\<open>int64\<close> range of a visit counter and the
  global generator's draw \<open>u\<close> in \<open>[0, 1)\<close>, an action is played (no overflow, no \<open>nan\<close>
  and no exception arises, however far apart the counts are), and it is that of the child
  at an index \<open>k\<close> whose softmax interval contains \<open>u\<close> up to the rounding of the float64
  arithmetic: \<open>p\<^sub>0 + ... + p\<^sub>k\<^sub>-\<^sub>1 - 2^-24 \<le> u < p\<^sub>0 + ... + p\<^sub>k + 2^-24\<close>, where \<open>p\<close> is the
  softmax of the raw explore counts, the maximum count subtracted before exponentiating,
  and \<open>p\<close> sums to 1; so child \<open>k\<close> is drawn with probability \<open>p\<^sub>k\<close> up to \<open>2^-23\<close>. At or
  above the threshold, the action is that of a child maximal for the pair (explore count,
  action): every other child has a smaller explore count, or the same explore count and
  an action-id that is not larger.
\<close>

theorem select_action_spec:
  fixes children :: "child list"
  assumes "children \<noteq> []"
  defines "m \<equiv> Max (set (map explore_count children))"
  defines "z \<equiv> (\<Sum>c\<leftarrow>children. exp (real_of_int (explore_count c - m)))"
  defines "probs \<equiv> map (\<lambda>c. exp (real_of_int (explore_count c - m)) / z) children"
  shows "(game_history_len < action_selection_transition a
            \<and> length children \<le> 4096
            \<and> (\<forall>c\<in>set children. 0 \<le> explore_count c \<and> explore_count c < 2 ^ 63)
            \<and> 0 \<le> np_random w 0 \<and> np_random w 0 < 1 \<longrightarrow>
          (\<exists>k<length children.
              select_action a children game_history_len w =
                Inr (action (children ! k), w\<lparr>np_random := (\<lambda>i. np_random w (Suc i))\<rparr>)
              \<and> sum_list (take k probs) - 1 / 2 ^ 24 \<le> np_random w 0
              \<and> np_random w 0 < sum_list (take (Suc k) probs) + 1 / 2 ^ 24))
       \<and> sum_list probs = 1
       \<and> (action_selection_transition a \<le> game_history_len \<longrightarrow>
          (\<exists>c\<in>set children.
              select_action a children game_history_len w = Inr (action c, w)
              \<and> (\<forall>c'\<in>set children.
                    explore_count c' < explore_count c
                    \<or> (explore_count c' = explore_count c \<and> action c' \<le> action c))))"
proof -
  let ?ecs = "map (\<lambda>c. (explore_count c, action c)) children"
  let ?logits = "map explore_count children"
  let ?E = "map (\<lambda>x. exp (real_of_int (x - m))) ?logits"
  have logits: "map (\<lambda>i. fst i) ?ecs = ?logits"
    by (simp add: comp_def)
  have ne: "?logits \<noteq> []" using assms(1) by simp
  have E: "?E = map (\<lambda>c. exp (real_of_int (explore_count c - m))) children"
    by (simp add: comp_def)
  have zE: "sum_list ?E = z" by (simp add: z_def comp_def)
  have zpos: "0 < z"
  proof -
    from assms(1) obtain c cs where "children = c # cs" by (cases children) auto
    moreover have "0 \<le> (\<Sum>c\<leftarrow>cs. exp (real_of_int (explore_count c - m)))"
      by (rule sum_list_nonneg) auto
    moreover have "0 < exp (real_of_int (explore_count c - m))" by simp
    ultimately show ?thesis unfolding z_def by (simp add: add_pos_nonneg)
  qed
  have takeE: "sum_list (take k probs) = sum_list (take k ?E) / z" for k
    unfolding probs_def E by (rule softmax_take)
  have "take (length children) probs = probs" "take (length children) ?E = ?E"
    by (simp_all add: probs_def)
  with takeE [of "length children"] have "sum_list probs = sum_list ?E / z" by simp
  then have "sum_list probs = z / z" unfolding zE .
  with zpos have one: "sum_list probs = 1" by simp
  have below: "\<exists>k<length children.
              select_action a children game_history_len w =
                Inr (action (children ! k), w\<lparr>np_random := (\<lambda>i. np_random w (Suc i))\<rparr>)
              \<and> sum_list (take k probs) - 1 / 2 ^ 24 \<le> np_random w 0
              \<and> np_random w 0 < sum_list (take (Suc k) probs) + 1 / 2 ^ 24"
    if lt: "game_history_len < action_selection_transition a"
      and len: "length children \<le> 4096"
      and rng: "\<forall>c\<in>set children. 0 \<le> explore_count c \<and> explore_count c < 2 ^ 63"
      and lo: "0 \<le> np_random w 0" and hi: "np_random w 0 < 1"
  proof -
    have len': "length ?logits \<le> 4096" using len by simp
    have rng': "\<forall>x\<in>set ?logits. 0 \<le> x \<and> x < 2 ^ 63" using rng by simp
    from np_softmax_bound [OF ne len' rng']
    obtain ps where soft: "np_softmax ?logits = Inr ps" and lps: "length ps = length ?logits"
      and ps0: "\<forall>p\<in>set ps. 0 \<le> p"
      and close: "\<And>k. \<bar>sum_list (take k ps) - sum_list (take k ?E) / sum_list ?E\<bar> \<le> 3 / 2 ^ 28"
      unfolding m_def [symmetric] by blast
    have close': "\<bar>sum_list (take k ps) - sum_list (take k probs)\<bar> \<le> 3 / 2 ^ 28" for k
      using close [of k] unfolding takeE zE .
    have pne: "ps \<noteq> []" using lps assms(1) by auto
    have plen: "length ps \<le> 4096" using lps len by simp
    have "take (length ps) ps = ps" "take (length ps) probs = probs"
      using lps by (simp_all add: probs_def)
    with close' [of "length ps"] one have pone: "\<bar>sum_list ps - 1\<bar> \<le> 3 / 2 ^ 28" by simp
    from np_random_choice_bound [OF pne plen ps0 pone lo hi]
    obtain k where ch: "np_random_choice ps (np_random w 0) = Inr k"
      and k: "k < length ps"
      and l1: "sum_list (take k ps) - 1 / 2 ^ 25 \<le> np_random w 0"
      and u1: "np_random w 0 < sum_list (take (Suc k) ps) + 1 / 2 ^ 25"
      by blast
    from k lps have kc: "k < length children" by simp
    then have get: "py_getitem ?ecs (int k) =
        Inr (explore_count (children ! k), action (children ! k))"
      by (simp add: py_getitem_def)
    have run: "select_action a children game_history_len w =
        Inr (action (children ! k), w\<lparr>np_random := (\<lambda>i. np_random w (Suc i))\<rparr>)"
      unfolding select_action_def Let_def logits
      using lt by (simp add: soft ch get bindE_def)
    have num: "1 / 2 ^ 25 + 3 / 2 ^ 28 \<le> (1 / 2 ^ 24 :: real)" by simp
    from l1 close' [of k] num have low: "sum_list (take k probs) - 1 / 2 ^ 24 \<le> np_random w 0"
      by linarith
    from u1 close' [of "Suc k"] num
    have up: "np_random w 0 < sum_list (take (Suc k) probs) + 1 / 2 ^ 24"
      by linarith
    from kc run low up show ?thesis by blast
  qed
  have above: "\<exists>c\<in>set children.
              select_action a children game_history_len w = Inr (action c, w)
              \<and> (\<forall>c'\<in>set children.
                    explore_count c' < explore_count c
                    \<or> (explore_count c' = explore_count c \<and> action c' \<le> action c))"
    if ge: "action_selection_transition a \<le> game_history_len"
  proof -
    have "?ecs \<noteq> []" using assms(1) by simp
    from py_max_spec [OF this]
    obtain mx where mx: "py_max ?ecs = Inr mx" and mem: "mx \<in> set ?ecs"
      and top: "\<forall>y\<in>set ?ecs. \<not> tuple_less mx y"
      by blast
    from mem obtain c where c: "c \<in> set children" and mc: "mx = (explore_count c, action c)"
      by auto
    have sel: "select_action a children game_history_len w = Inr (action c, w)"
      unfolding select_action_def Let_def
      using ge by (simp add: mx mc bindE_def)
    have "explore_count c' < explore_count c
        \<or> (explore_count c' = explore_count c \<and> action c' \<le> action c)"
      if "c' \<in> set children" for c'
    proof -
      from that have "(explore_count c', action c') \<in> set ?ecs" by auto
      with top have "\<not> tuple_less mx (explore_count c', action c')" by blast
      then show ?thesis unfolding mc tuple_less_def by auto
    qed
    with c sel show ?thesis by blast
  qed
  from below one above show ?thesis by blast
qed

theorem select_action_spec_witness:
  "(\<exists>k<length toy_children.
      select_action (toy_controller\<lparr>action_selection_transition := 30\<rparr>) toy_children 0
        toy_globals =
      Inr (action (toy_children ! k),
           toy_globals\<lparr>np_random := (\<lambda>i. np_random toy_globals (Suc i))\<rparr>))
   \<and> (\<exists>c\<in>set toy_children.
        select_action toy_controller toy_children 0 toy_globals = Inr (action c, toy_globals))"
proof -
  have ne: "toy_children \<noteq> []"
    by (simp add: toy_children_def)
  have b: "0 < action_selection_transition (toy_controller\<lparr>action_selection_transition := 30\<rparr>)
      \<and> length toy_children \<le> 4096
      \<and> (\<forall>c\<in>set toy_children. 0 \<le> explore_count c \<and> explore_count c < 2 ^ 63)
      \<and> 0 \<le> np_random toy_globals 0 \<and> np_random toy_globals 0 < 1"
    by (simp add: toy_globals_def toy_children_def)
  have c: "action_selection_transition toy_controller \<le> 0"
    by (simp add: toy_controller_def)
  from select_action_spec [OF ne, where game_history_len = 0
      and a = "toy_controller\<lparr>action_selection_transition := 30\<rparr>" and w = toy_globals] b
  have "\<exists>k<length toy_children.
      select_action (toy_controller\<lparr>action_selection_transition := 30\<rparr>) toy_children 0
        toy_globals =
      Inr (action (toy_children ! k),
           toy_globals\<lparr>np_random := (\<lambda>i. np_random toy_globals (Suc i))\<rparr>)"
    by blast
  moreover
  from select_action_spec [OF ne, where game_history_len = 0
      and a = toy_controller and w = toy_globals] c
  have "\<exists>c\<in>set toy_children.
        select_action toy_controller toy_children 0 toy_globals = Inr (action c, toy_globals)"
    by blast
  ultimately show ?thesis by blast
qed

text \<open>The subtraction of the maximum at work. With explore counts 0 and 1000 the
  exponential of \<open>0 - 1000\<close> underflows to 0, the probabilities are exactly 0 and 1, and
  the draw 0 plays the second child. The exponential of 1000 itself, which a softmax
  without the subtraction would form, overflows (lemma \<open>np_exp_overflow\<close>). Outside
  the range of a visit counter the \<^verbatim>\<open>int64\<close> difference can wrap around to a large
  positive number, and then the exponential overflows as well.\<close>

lemma select_action_far:
  "select_action (toy_controller\<lparr>action_selection_transition := 30\<rparr>) toy_children_far 0
     (toy_globals\<lparr>np_random := (\<lambda>i. 0)\<rparr>) =
   Inr (1, toy_globals\<lparr>np_random := (\<lambda>i. 0)\<rparr>)"
proof -
  have d: "int64 (- 1000) = - 1000" "int64 0 = 0"
    by (simp_all add: int64_def)
  have e1: "np_exp 0 = Inr 1"
    by (simp add: np_exp_def float64_one)
  have soft: "np_softmax [0, 1000] = Inr [0, 1]"
    by (simp add: np_softmax_def d np_exp_underflow e1 bindE_Inr np_sum_def np_divide_def
        float64_one float64_zero)
  have ch: "np_random_choice [0, 1] 0 = Inr 1"
    by (simp add: np_random_choice_def np_cumsum_def np_divide_def bindE_Inr float64_one
        float64_zero)
  show ?thesis
    by (simp add: select_action_def toy_children_far_def toy_globals_def soft ch bindE_Inr
        py_getitem_def)
qed

lemma np_softmax_wrap: "np_softmax [- 2, 2 ^ 63 - 1] = Inl FloatingPointError"
proof -
  have "int64 (- 2 - (2 ^ 63 - 1)) = 2 ^ 63 - 1"
    by (simp add: int64_def)
  moreover have "np_exp (2 ^ 63 - 1) = Inl FloatingPointError"
    by (rule np_exp_overflow) simp
  ultimately show ?thesis
    by (simp add: np_softmax_def bindE_def)
qed

section \<open>The target values of a self-play episode\<close>

lemma self_play_loop_lengths:
  "self_play_loop fuel a b w state observations policy_target =
      Some (Inr (state', observations', policy_target', b', w')) \<Longrightarrow>
   length observations = length policy_target \<Longrightarrow>
   length observations' = length policy_target'"
proof (induction fuel arbitrary: b w state observations policy_target)
  case 0
  then show ?case by simp
next
  case (Suc fuel)
  show ?case
  proof (cases "is_terminal (game a) state")
    case True
    with Suc.prems show ?thesis by simp
  next
    case False
    obtain children b1 where ms: "mcts_search (bot a) b state = (children, b1)"
      by (cases "mcts_search (bot a) b state")
    from Suc.prems(1) False ms obtain tp where
      tp: "target_policy_of (num_distinct_actions (game a)) children = Inr tp"
      by (cases "target_policy_of (num_distinct_actions (game a)) children") auto
    from Suc.prems(1) False ms tp obtain act w1 where
      sel: "select_action a children (int (length (history (game a) state))) w = Inr (act, w1)"
      by (cases "select_action a children (int (length (history (game a) state))) w") auto
    from Suc.prems(1) False ms tp sel
    have "self_play_loop fuel a b1 w1 (apply_action (game a) state act)
        (observations @ [observation_tensor (game a) state]) (policy_target @ [tp]) =
      Some (Inr (state', observations', policy_target', b', w'))"
      by simp
    moreover have "length (observations @ [observation_tensor (game a) state]) =
        length (policy_target @ [tp])"
      using Suc.prems(2) by simp
    ultimately show ?thesis by (rule Suc.IH)
  qed
qed

lemma add_results_spec:
  assumes "2 \<le> length tr"
  shows "\<exists>ts. add_results i zs tr buf = Inr (fold (\<lambda>t b. buffer_add b t) ts buf)
      \<and> length ts = length zs
      \<and> (\<forall>j<length zs. ts ! j =
            \<lparr>observation = fst (zs ! j), target_value = tr ! ((i + j) mod 2),
             target_policy = snd (zs ! j)\<rparr>)"
proof (induction zs arbitrary: i buf)
  case Nil
  show ?case by simp
next
  case (Cons z zs)
  obtain obs pol where z: "z = (obs, pol)" by (cases z)
  let ?t = "\<lparr>observation = obs, target_value = tr ! (i mod 2), target_policy = pol\<rparr>"
  have "int i mod 2 = int (i mod 2)" by (simp add: zmod_int)
  moreover have "i mod 2 < length tr" using assms by simp
  ultimately have get: "py_getitem tr (int i mod 2) = Inr (tr ! (i mod 2))"
    by (simp add: py_getitem_def)
  from Cons.IH [of "Suc i" "buffer_add buf ?t"]
  obtain ts where r: "add_results (Suc i) zs tr (buffer_add buf ?t) =
        Inr (fold (\<lambda>t b. buffer_add b t) ts (buffer_add buf ?t))"
    and l: "length ts = length zs"
    and n: "\<forall>j<length zs. ts ! j =
            \<lparr>observation = fst (zs ! j), target_value = tr ! ((Suc i + j) mod 2),
             target_policy = snd (zs ! j)\<rparr>"
    by blast
  have run: "add_results i (z # zs) tr buf = Inr (fold (\<lambda>t b. buffer_add b t) (?t # ts) buf)"
    by (simp add: z get bindE_def r)
  have nth: "(?t # ts) ! j =
            \<lparr>observation = fst ((z # zs) ! j), target_value = tr ! ((i + j) mod 2),
             target_policy = snd ((z # zs) ! j)\<rparr>" if "j < length (z # zs)" for j
  proof (cases j)
    case 0
    then show ?thesis by (simp add: z)
  next
    case (Suc k)
    with that have "k < length zs" by simp
    with n have "ts ! k = \<lparr>observation = fst (zs ! k),
        target_value = tr ! ((Suc i + k) mod 2), target_policy = snd (zs ! k)\<rparr>"
      by blast
    with Suc show ?thesis by simp
  qed
  have "length (?t # ts) = length (z # zs)" using l by simp
  with run nth show ?case by blast
qed

text \<open>
  Claim C2. For every episode that completes (the loop ends in a terminal state whose
  reward vector has the two entries of a 2-player game), \<^verbatim>\<open>_self_play_single\<close> adds to
  the replay buffer, in play order, one transition per recorded step, and the transition
  of step \<open>i\<close> has the target value \<open>terminal_rewards[i mod 2]\<close>, with the observation and
  the target policy recorded at step \<open>i\<close>. The game's notion of who moved plays no part.
\<close>

theorem self_play_target_values:
  assumes "self_play_loop fuel a (bot_state (bot a)) w (new_initial_state (game a)) [] [] =
      Some (Inr (state, observations, policy_target, b', w'))"
    and "2 \<le> length (rewards (game a) state)"
  shows "\<exists>ts. self_play_single fuel a w =
        Some (Inr (a\<lparr>bot := (bot a)\<lparr>bot_state := b'\<rparr>,
                     buffer := fold (\<lambda>t b. buffer_add b t) ts (buffer a)\<rparr>, w'))
      \<and> length ts = length observations
      \<and> (\<forall>i<length ts.
            target_value (ts ! i) = rewards (game a) state ! (i mod 2)
            \<and> observation (ts ! i) = observations ! i
            \<and> target_policy (ts ! i) = policy_target ! i)"
proof -
  have len: "length observations = length policy_target"
    using self_play_loop_lengths [OF assms(1)] by simp
  let ?zs = "zip observations policy_target"
  from add_results_spec [OF assms(2), of 0 ?zs "buffer a"]
  obtain ts where r: "add_results 0 ?zs (rewards (game a) state) (buffer a) =
        Inr (fold (\<lambda>t b. buffer_add b t) ts (buffer a))"
    and l: "length ts = length ?zs"
    and n: "\<forall>j<length ?zs. ts ! j =
            \<lparr>observation = fst (?zs ! j),
             target_value = rewards (game a) state ! ((0 + j) mod 2),
             target_policy = snd (?zs ! j)\<rparr>"
    by blast
  have lz: "length ?zs = length observations" using len by simp
  have run: "self_play_single fuel a w =
        Some (Inr (a\<lparr>bot := (bot a)\<lparr>bot_state := b'\<rparr>,
                     buffer := fold (\<lambda>t b. buffer_add b t) ts (buffer a)\<rparr>, w'))"
    by (simp add: self_play_single_def assms(1) r bindE_def)
  have each: "target_value (ts ! i) = rewards (game a) state ! (i mod 2)
            \<and> observation (ts ! i) = observations ! i
            \<and> target_policy (ts ! i) = policy_target ! i" if "i < length ts" for i
  proof -
    from that l have i: "i < length ?zs" by simp
    with n have "ts ! i = \<lparr>observation = fst (?zs ! i),
             target_value = rewards (game a) state ! ((0 + i) mod 2),
             target_policy = snd (?zs ! i)\<rparr>"
      by blast
    moreover from i have "?zs ! i = (observations ! i, policy_target ! i)"
      by simp
    ultimately show ?thesis by simp
  qed
  from run l lz each show ?thesis by auto
qed

lemma toy_target_policy: "target_policy_of 2 toy_children = Inr [3 / 4, 1 / 4]"
  by (simp add: target_policy_of_def toy_children_def np_zeros_def np_setitem_def np_idiv_def
      bindE_def numeral_2_eq_2)

lemma toy_select:
  "action_selection_transition a \<le> k \<Longrightarrow> select_action a toy_children k w = Inr (0, w)"
  by (simp add: select_action_def toy_children_def py_max_def tuple_less_def bindE_def)

lemma toy_loop:
  "self_play_loop 5 toy_controller (bot_state (bot toy_controller)) toy_globals
      (new_initial_state (game toy_controller)) [] [] =
    Some (Inr (2, [[0], [1]], [[3 / 4, 1 / 4], [3 / 4, 1 / 4]], 0, toy_globals))"
  by (simp add: eval_nat_numeral toy_controller_def toy_game_def toy_bot_def
      toy_target_policy toy_select)

theorem self_play_target_values_witness:
  "\<exists>ts. self_play_single 5 toy_controller toy_globals =
        Some (Inr (toy_controller\<lparr>bot := (bot toy_controller)\<lparr>bot_state := 0\<rparr>,
                     buffer := fold (\<lambda>t b. buffer_add b t) ts (buffer toy_controller)\<rparr>,
                   toy_globals))
      \<and> length ts = 2
      \<and> target_value (ts ! 0) = 1 \<and> target_value (ts ! 1) = - 1"
proof -
  have r: "2 \<le> length (rewards (game toy_controller) (2::nat))"
    by (simp add: toy_controller_def toy_game_def)
  from self_play_target_values [OF toy_loop r]
  obtain ts where run: "self_play_single 5 toy_controller toy_globals =
        Some (Inr (toy_controller\<lparr>bot := (bot toy_controller)\<lparr>bot_state := 0\<rparr>,
                     buffer := fold (\<lambda>t b. buffer_add b t) ts (buffer toy_controller)\<rparr>,
                   toy_globals))"
    and l: "length ts = length [[0], [1::real]]"
    and e: "\<forall>i<length ts.
            target_value (ts ! i) = rewards (game toy_controller) (2::nat) ! (i mod 2)
            \<and> observation (ts ! i) = [[0], [1]] ! i
            \<and> target_policy (ts ! i) = [[3 / 4, 1 / 4], [3 / 4, 1 / 4]] ! i"
    by blast
  from l have l2: "length ts = 2" by simp
  from e l2 have "target_value (ts ! 0) = rewards (game toy_controller) (2::nat) ! (0 mod 2)"
    by simp
  then have t0: "target_value (ts ! 0) = 1"
    by (simp add: toy_controller_def toy_game_def)
  from e l2 have "target_value (ts ! 1) = rewards (game toy_controller) (2::nat) ! (1 mod 2)"
    by simp
  then have t1: "target_value (ts ! 1) = - 1"
    by (simp add: toy_controller_def toy_game_def)
  from run l2 t0 t1 show ?thesis by blast
qed

section \<open>Self-play and update of the controller\<close>

lemma toy_sample:
  "buffer_sample_replace \<lparr>capacity = 10, items = toy_transitions\<rparr> 2 (\<lambda>i. i)
     = Inr toy_transitions"
  by (simp add: buffer_sample_replace_def toy_transitions_def upt_rec)

lemma toy_update:
  "AlphaZero_update (toy_controller\<lparr>buffer := \<lparr>capacity = 10, items = toy_transitions\<rparr>\<rparr>)
        toy_globals =
      Inr (\<lparr>lv_total = 2, lv_policy = 2, lv_value = 0, lv_l2 = 0\<rparr>,
           toy_controller\<lparr>buffer := \<lparr>capacity = 10, items = toy_transitions\<rparr>,
                          bot := toy_bot\<lparr>bot_state := 1\<rparr>\<rparr>,
           toy_globals\<lparr>sample_random := (\<lambda>i. i + 2)\<rparr>)"
proof -
  have len: "length toy_transitions = 2"
    by (simp add: toy_transitions_def)
  show ?thesis
    by (simp add: AlphaZero_update_def toy_controller_def toy_globals_def toy_sample
        bindE_def toy_bot_def len)
qed

lemma add_results_Inr:
  "add_results i zs tr buf = Inr buf' \<Longrightarrow>
     \<exists>ts. buf' = fold (\<lambda>t b. buffer_add b t) ts buf \<and> length ts = length zs"
proof (induction zs arbitrary: i buf)
  case Nil
  then show ?case by simp
next
  case (Cons z zs)
  obtain obs pol where z: "z = (obs, pol)" by (cases z)
  from Cons.prems z obtain v where v: "py_getitem tr (int i mod 2) = Inr v"
    by (cases "py_getitem tr (int i mod 2)") (auto simp: bindE_def)
  let ?t = "\<lparr>observation = obs, target_value = v, target_policy = pol\<rparr>"
  from Cons.prems z v have "add_results (Suc i) zs tr (buffer_add buf ?t) = Inr buf'"
    by (simp add: bindE_def)
  from Cons.IH [OF this] obtain ts where
    ts: "buf' = fold (\<lambda>t b. buffer_add b t) ts (buffer_add buf ?t)" "length ts = length zs"
    by blast
  then have "buf' = fold (\<lambda>t b. buffer_add b t) (?t # ts) buf"
    and "length (?t # ts) = length (z # zs)"
    by simp_all
  then show ?case by blast
qed

lemma self_play_single_Inr:
  assumes "self_play_single fuel a w = Some (Inr (a', w'))"
  shows "\<exists>ts. buffer a' = fold (\<lambda>t b. buffer_add b t) ts (buffer a)"
proof -
  from assms obtain state observations policy_target b' w1 where
    loop: "self_play_loop fuel a (bot_state (bot a)) w (new_initial_state (game a)) [] [] =
      Some (Inr (state, observations, policy_target, b', w1))"
    by (auto simp: self_play_single_def split: option.splits sum.splits)
  from assms loop obtain buf where
    add: "add_results 0 (zip observations policy_target) (rewards (game a) state) (buffer a)
      = Inr buf"
    and a': "a' = a\<lparr>bot := (bot a)\<lparr>bot_state := b'\<rparr>, buffer := buf\<rparr>"
    by (cases "add_results 0 (zip observations policy_target) (rewards (game a) state)
        (buffer a)") (auto simp: self_play_single_def bindE_def)
  from add_results_Inr [OF add] obtain ts where
    "buf = fold (\<lambda>t b. buffer_add b t) ts (buffer a)" by blast
  with a' show ?thesis by auto
qed

lemma self_play_games_chain:
  "self_play_games n fuel a w = Some (Inr (a', w')) \<Longrightarrow>
     \<exists>as ws. length as = Suc n \<and> length ws = Suc n \<and> as ! 0 = a \<and> ws ! 0 = w
       \<and> last as = a' \<and> last ws = w'
       \<and> (\<forall>i<n. self_play_single fuel (as ! i) (ws ! i) = Some (Inr (as ! Suc i, ws ! Suc i)))"
proof (induction n arbitrary: a w)
  case 0
  then have "a' = a" "w' = w" by simp_all
  then have "length [a] = Suc 0 \<and> length [w] = Suc 0 \<and> [a] ! 0 = a \<and> [w] ! 0 = w
       \<and> last [a] = a' \<and> last [w] = w'
       \<and> (\<forall>i<0. self_play_single fuel ([a] ! i) ([w] ! i) =
              Some (Inr ([a] ! Suc i, [w] ! Suc i)))"
    by simp
  then show ?case by blast
next
  case (Suc n)
  from Suc.prems obtain a1 w1 where
    one: "self_play_single fuel a w = Some (Inr (a1, w1))"
    and rest: "self_play_games n fuel a1 w1 = Some (Inr (a', w'))"
    by (auto split: option.splits sum.splits)
  from Suc.IH [OF rest] obtain as ws where
    l: "length as = Suc n" "length ws = Suc n" and h: "as ! 0 = a1" "ws ! 0 = w1"
    and e: "last as = a'" "last ws = w'"
    and step: "\<And>i. i < n \<Longrightarrow>
        self_play_single fuel (as ! i) (ws ! i) = Some (Inr (as ! Suc i, ws ! Suc i))"
    by blast
  from l have ne: "as \<noteq> []" "ws \<noteq> []" by auto
  have "self_play_single fuel ((a # as) ! i) ((w # ws) ! i) =
      Some (Inr ((a # as) ! Suc i, (w # ws) ! Suc i))" if "i < Suc n" for i
  proof (cases i)
    case 0
    with one h show ?thesis by simp
  next
    case (Suc j)
    with that have "j < n" by simp
    from step [OF this] Suc show ?thesis by simp
  qed
  moreover have "length (a # as) = Suc (Suc n)" "length (w # ws) = Suc (Suc n)"
    "(a # as) ! 0 = a" "(w # ws) ! 0 = w" "last (a # as) = a'" "last (w # ws) = w'"
    using l e ne by simp_all
  ultimately show ?case by blast
qed

lemma toy_episode:
  "self_play_single 5 (toy_controller\<lparr>num_self_play_games := k, buffer := buf\<rparr>) toy_globals =
     Some (Inr (toy_controller\<lparr>num_self_play_games := k,
                  buffer := fold (\<lambda>t b. buffer_add b t) toy_transitions buf\<rparr>, toy_globals))"
proof -
  let ?a = "toy_controller\<lparr>num_self_play_games := k, buffer := buf\<rparr>"
  have loop: "self_play_loop 5 ?a (bot_state (bot ?a)) toy_globals
      (new_initial_state (game ?a)) [] [] =
    Some (Inr (2, [[0], [1]], [[3 / 4, 1 / 4], [3 / 4, 1 / 4]], 0, toy_globals))"
    by (simp add: eval_nat_numeral toy_controller_def toy_game_def toy_bot_def
        toy_target_policy toy_select)
  have rw: "rewards (game ?a) (2::nat) = [1, - 1]"
    by (simp add: toy_controller_def toy_game_def)
  have add: "add_results 0 (zip [[0], [1]] [[3 / 4, 1 / 4], [3 / 4, 1 / 4]])
      (rewards (game ?a) (2::nat)) (buffer ?a) =
    Inr (fold (\<lambda>t b. buffer_add b t) toy_transitions buf)"
    unfolding rw by (simp add: toy_transitions_def py_getitem_def bindE_Inr)
  have same: "?a\<lparr>bot := (bot ?a)\<lparr>bot_state := 0\<rparr>,
        buffer := fold (\<lambda>t b. buffer_add b t) toy_transitions buf\<rparr> =
      toy_controller\<lparr>num_self_play_games := k,
        buffer := fold (\<lambda>t b. buffer_add b t) toy_transitions buf\<rparr>"
    by (simp add: toy_controller_def toy_bot_def)
  show ?thesis
    unfolding self_play_single_def loop
    by (simp only: option.case sum.case prod.case add bindE_Inr same)
qed

lemma toy_self_play:
  "AlphaZero_self_play 5 (toy_controller\<lparr>num_self_play_games := 2\<rparr>) toy_globals =
     Some (Inr (toy_controller\<lparr>num_self_play_games := 2,
                  buffer := fold (\<lambda>t b. buffer_add b t) (toy_transitions @ toy_transitions)
                              (buffer toy_controller)\<rparr>, toy_globals))"
proof -
  have e0: "self_play_single 5 (toy_controller\<lparr>num_self_play_games := 2\<rparr>) toy_globals =
     Some (Inr (toy_controller\<lparr>num_self_play_games := 2,
                  buffer := fold (\<lambda>t b. buffer_add b t) toy_transitions
                              (buffer toy_controller)\<rparr>, toy_globals))"
    using toy_episode [where k = 2 and buf = "buffer toy_controller"] by simp
  have n: "nat (num_self_play_games (toy_controller\<lparr>num_self_play_games := 2\<rparr>)) = Suc (Suc 0)"
    by simp
  show ?thesis
    unfolding AlphaZero_self_play_def n
    by (simp add: e0 toy_episode)
qed

text \<open>
  Claim C3, as stated, fails on the code: the class has no orchestration loop.
  \<open>num_training_rounds\<close> is not stored, so three rounds and seven rounds construct the
  same object, and the one operation that samples and trains, \<^verbatim>\<open>update\<close>, trains the
  evaluator exactly once (the toy bot's counter goes from 0 to 1).
\<close>

theorem update_rounds_counterexample:
  "AlphaZero_init (toy_game 2) toy_bot 10 0 1 3 2 (None :: unit option) = Inr toy_controller
   \<and> AlphaZero_init (toy_game 2) toy_bot 10 0 1 7 2 (None :: unit option) = Inr toy_controller
   \<and> AlphaZero_update (toy_controller\<lparr>buffer := \<lparr>capacity = 10, items = toy_transitions\<rparr>\<rparr>)
        toy_globals =
      Inr (\<lparr>lv_total = 2, lv_policy = 2, lv_value = 0, lv_l2 = 0\<rparr>,
           toy_controller\<lparr>buffer := \<lparr>capacity = 10, items = toy_transitions\<rparr>,
                          bot := toy_bot\<lparr>bot_state := 1\<rparr>\<rparr>,
           toy_globals\<lparr>sample_random := (\<lambda>i. i + 2)\<rparr>)"
  using toy_init [of 3 "None :: unit option"] toy_init [of 7 "None :: unit option"] toy_update
  by blast

text \<open>
  Claim C3, amended. The constructor ignores \<open>num_training_rounds\<close>, and the controller
  offers the two phases of a round as separate operations, not a loop over rounds.
  Whenever \<^verbatim>\<open>self_play\<close> returns, it has run \<open>num_self_play_games\<close> episodes one after the
  other, each starting from the controller and the generators the previous one left, and
  each has added its transitions to the replay buffer. Whenever \<^verbatim>\<open>update\<close> returns, it
  has sampled one batch of \<open>batch_size\<close> transitions of the replay buffer with
  replacement, has called the evaluator's update once with that batch, returns the losses
  of that call, and has changed nothing of the controller but the bot's state; and it
  does return whenever the sampling and the evaluator's update succeed.
\<close>

theorem self_play_and_update:
  "AlphaZero_init g b cap ast n r bs rs = AlphaZero_init g b cap ast n r' bs rs
   \<and> (AlphaZero_self_play fuel a w = Some (Inr (a', w')) \<longrightarrow>
        (\<exists>as ws. length as = Suc (nat (num_self_play_games a)) \<and> length ws = length as
           \<and> as ! 0 = a \<and> ws ! 0 = w \<and> last as = a' \<and> last ws = w'
           \<and> (\<forall>i<nat (num_self_play_games a).
                 self_play_single fuel (as ! i) (ws ! i) = Some (Inr (as ! Suc i, ws ! Suc i))
                 \<and> (\<exists>ts. buffer (as ! Suc i) =
                           fold (\<lambda>t b. buffer_add b t) ts (buffer (as ! i))))))
   \<and> (AlphaZero_update a w = Inr (lv, a'', w'') \<longrightarrow>
        (case buffer_sample_replace (buffer a) (batch_size a) (sample_random w) of
           Inl e \<Rightarrow> False
         | Inr data \<Rightarrow>
             length data = nat (batch_size a) \<and> set data \<subseteq> set (items (buffer a))
             \<and> (case evaluator_update (bot a) (bot_state (bot a)) data of
                  Inl e \<Rightarrow> False
                | Inr (res, b') \<Rightarrow> lv = res \<and> a'' = a\<lparr>bot := (bot a)\<lparr>bot_state := b'\<rparr>\<rparr>)))
   \<and> ((\<exists>data res b'.
          buffer_sample_replace (buffer a) (batch_size a) (sample_random w) = Inr data
          \<and> evaluator_update (bot a) (bot_state (bot a)) data = Inr (res, b')) \<longrightarrow>
        (\<exists>l c v. AlphaZero_update a w = Inr (l, c, v)))"
proof -
  have sample: "length data = nat k \<and> set data \<subseteq> set (items buf)"
    if "buffer_sample_replace buf k f = Inr data" for buf k f data
  proof -
    from that have ne: "items buf \<noteq> []"
      and d: "data = map (\<lambda>j. items buf ! (f j mod length (items buf))) [0..<nat k]"
      by (auto simp: buffer_sample_replace_def split: if_splits)
    from ne have "f j mod length (items buf) < length (items buf)" for j
      by simp
    then show ?thesis
      unfolding d by (auto simp: nth_mem)
  qed
  have init: "AlphaZero_init g b cap ast n r bs rs = AlphaZero_init g b cap ast n r' bs rs"
    by (simp add: AlphaZero_init_def)
  have play: "\<exists>as ws. length as = Suc (nat (num_self_play_games a)) \<and> length ws = length as
           \<and> as ! 0 = a \<and> ws ! 0 = w \<and> last as = a' \<and> last ws = w'
           \<and> (\<forall>i<nat (num_self_play_games a).
                 self_play_single fuel (as ! i) (ws ! i) = Some (Inr (as ! Suc i, ws ! Suc i))
                 \<and> (\<exists>ts. buffer (as ! Suc i) =
                           fold (\<lambda>t b. buffer_add b t) ts (buffer (as ! i))))"
    if run: "AlphaZero_self_play fuel a w = Some (Inr (a', w'))"
  proof -
    let ?n = "nat (num_self_play_games a)"
    from run have "self_play_games ?n fuel a w = Some (Inr (a', w'))"
      by (simp add: AlphaZero_self_play_def)
    from self_play_games_chain [OF this] obtain as ws where
      l: "length as = Suc ?n" "length ws = Suc ?n" and h: "as ! 0 = a" "ws ! 0 = w"
      and e: "last as = a'" "last ws = w'"
      and step: "\<And>i. i < ?n \<Longrightarrow>
          self_play_single fuel (as ! i) (ws ! i) = Some (Inr (as ! Suc i, ws ! Suc i))"
      by blast
    have "self_play_single fuel (as ! i) (ws ! i) = Some (Inr (as ! Suc i, ws ! Suc i))
        \<and> (\<exists>ts. buffer (as ! Suc i) = fold (\<lambda>t b. buffer_add b t) ts (buffer (as ! i)))"
      if "i < ?n" for i
      using step [OF that] self_play_single_Inr [OF step [OF that]] by blast
    then have "\<forall>i<?n. self_play_single fuel (as ! i) (ws ! i) =
          Some (Inr (as ! Suc i, ws ! Suc i))
        \<and> (\<exists>ts. buffer (as ! Suc i) = fold (\<lambda>t b. buffer_add b t) ts (buffer (as ! i)))"
      by blast
    moreover have "length ws = length as" using l by simp
    ultimately show ?thesis
      using l(1) h e by (intro exI [of _ as] exI [of _ ws]) simp
  qed
  have upd: "(case buffer_sample_replace (buffer a) (batch_size a) (sample_random w) of
           Inl e \<Rightarrow> False
         | Inr data \<Rightarrow>
             length data = nat (batch_size a) \<and> set data \<subseteq> set (items (buffer a))
             \<and> (case evaluator_update (bot a) (bot_state (bot a)) data of
                  Inl e \<Rightarrow> False
                | Inr (res, b') \<Rightarrow> lv = res \<and> a'' = a\<lparr>bot := (bot a)\<lparr>bot_state := b'\<rparr>\<rparr>))"
    if "AlphaZero_update a w = Inr (lv, a'', w'')"
    using that
    by (auto simp: AlphaZero_update_def bindE_def dest: sample split: sum.splits prod.splits)
  have ret: "\<exists>l c v. AlphaZero_update a w = Inr (l, c, v)"
    if "\<exists>data res b'.
          buffer_sample_replace (buffer a) (batch_size a) (sample_random w) = Inr data
          \<and> evaluator_update (bot a) (bot_state (bot a)) data = Inr (res, b')"
    using that by (auto simp: AlphaZero_update_def bindE_def)
  from init play upd ret show ?thesis by blast
qed

theorem self_play_and_update_witness:
  "AlphaZero_self_play 5 (toy_controller\<lparr>num_self_play_games := 2\<rparr>) toy_globals =
     Some (Inr (toy_controller\<lparr>num_self_play_games := 2,
                  buffer := fold (\<lambda>t b. buffer_add b t) (toy_transitions @ toy_transitions)
                              (buffer toy_controller)\<rparr>, toy_globals))
   \<and> (\<exists>as ws. length as = 3 \<and> length ws = 3
         \<and> as ! 0 = toy_controller\<lparr>num_self_play_games := 2\<rparr>
         \<and> self_play_single 5 (as ! 0) (ws ! 0) = Some (Inr (as ! 1, ws ! 1))
         \<and> self_play_single 5 (as ! 1) (ws ! 1) = Some (Inr (as ! 2, ws ! 2)))
   \<and> AlphaZero_update (toy_controller\<lparr>buffer := \<lparr>capacity = 10, items = toy_transitions\<rparr>\<rparr>)
        toy_globals =
      Inr (\<lparr>lv_total = 2, lv_policy = 2, lv_value = 0, lv_l2 = 0\<rparr>,
           toy_controller\<lparr>buffer := \<lparr>capacity = 10, items = toy_transitions\<rparr>,
                          bot := toy_bot\<lparr>bot_state := 1\<rparr>\<rparr>,
           toy_globals\<lparr>sample_random := (\<lambda>i. i + 2)\<rparr>)
   \<and> buffer_sample_replace \<lparr>capacity = 10, items = toy_transitions\<rparr> 2 (\<lambda>i. i)
       = Inr toy_transitions"
proof -
  let ?a0 = "toy_controller\<lparr>num_self_play_games := 2\<rparr>"
  let ?a1 = "toy_controller\<lparr>num_self_play_games := 2,
      buffer := fold (\<lambda>t b. buffer_add b t) (toy_transitions @ toy_transitions)
                  (buffer toy_controller)\<rparr>"
  note inst = self_play_and_update [where a = ?a0 and w = toy_globals and fuel = 5
      and a' = ?a1 and w' = toy_globals
      and g = "toy_game 2" and b = toy_bot and cap = 10 and ast = 0 and n = 1 and r = 3
      and r' = 7 and bs = 2 and rs = "None :: unit option"]
  have n: "nat (num_self_play_games ?a0) = 2" by simp
  from inst toy_self_play obtain as ws where
    l: "length as = Suc (nat (num_self_play_games ?a0))" "length ws = length as"
    and h: "as ! 0 = ?a0"
    and step: "\<forall>i<nat (num_self_play_games ?a0).
        self_play_single 5 (as ! i) (ws ! i) = Some (Inr (as ! Suc i, ws ! Suc i))
        \<and> (\<exists>ts. buffer (as ! Suc i) = fold (\<lambda>t b. buffer_add b t) ts (buffer (as ! i)))"
    by blast
  from l have l3: "length as = 3" "length ws = 3" unfolding n by simp_all
  from step have s0: "self_play_single 5 (as ! 0) (ws ! 0) = Some (Inr (as ! 1, ws ! 1))"
    and s1: "self_play_single 5 (as ! 1) (ws ! 1) = Some (Inr (as ! 2, ws ! 2))"
    unfolding n by (simp_all add: numeral_2_eq_2)
  from l3 h s0 s1 have chain: "\<exists>as ws. length as = 3 \<and> length ws = 3
         \<and> as ! 0 = toy_controller\<lparr>num_self_play_games := 2\<rparr>
         \<and> self_play_single 5 (as ! 0) (ws ! 0) = Some (Inr (as ! 1, ws ! 1))
         \<and> self_play_single 5 (as ! 1) (ws ! 1) = Some (Inr (as ! 2, ws ! 2))"
    by blast
  from toy_self_play chain toy_update toy_sample show ?thesis by blast
qed

section \<open>The losses reported by the evaluator's update\<close>

lemma np_vstack_Inr: "np_vstack rows = Inr r \<Longrightarrow> r = rows \<and> rows \<noteq> []"
  by (auto simp: np_vstack_def split: if_splits)

lemma fold_add_sum_list:
  fixes f :: "'a \<Rightarrow> real"
  shows "fold (\<lambda>w acc. acc + f w) ws a = a + sum_list (map f ws)"
  by (induction ws arbitrary: a) (auto simp: add.assoc)

lemma l2_sum:
  "sum_list (map (\<lambda>w. c * tf_l2_loss w) ws) =
     c * (sum_list (map (\<lambda>w. sum_list (map (\<lambda>x. x ^ 2) w)) ws) / 2)"
  by (induction ws) (auto simp: tf_l2_loss_def algebra_simps add_divide_distrib)

lemma concat_singletons: "concat (map (\<lambda>e. [f e]) xs) = map f xs"
  by (induction xs) auto

lemma length_concat_unit_rows:
  "map length rows = map length (map (\<lambda>e. [f e]) xs) \<Longrightarrow> length (concat rows) = length xs"
proof (induction rows arbitrary: xs)
  case Nil
  then show ?case by simp
next
  case (Cons r rows)
  then obtain x xs' where xs: "xs = x # xs'" by (cases xs) auto
  with Cons.prems have "length r = 1" and "map length rows = map length (map (\<lambda>e. [f e]) xs')"
    by simp_all
  with Cons.IH [of xs'] xs show ?case by simp
qed

lemma float32_64: "float32 64 = Inr 64"
  using float32_eval [where x = 64 and k = 6 and z = 8388608 and r = 0]
  by (simp add: powr_minus)

lemma float32_64_small: "float32 (64 + 1 / 2 ^ 19) = Inr 64"
  using float32_eval [where x = "64 + 1 / 2 ^ 19" and k = 6 and z = 8388608 and r = "1 / 4"]
  by (simp add: powr_minus)

lemma float32_1: "float32 1 = Inr 1"
  using float32_eval [where x = 1 and k = 0 and z = 8388608 and r = 0]
  by (simp add: powr_minus)

lemma float32_3_2: "float32 (3 / 2) = Inr (3 / 2)"
  using float32_eval [where x = "3 / 2" and k = 0 and z = 12582912 and r = 0]
  by (simp add: powr_minus)

lemma toy_one_action_losses:
  "tf_mean_squared_error [[0]] [[t]] = Inr (t ^ 2)"
  "tf_softmax_cross_entropy_with_logits [[0]] [[1]] = Inr [0]"
  "tf_reduce_mean [0] = 0"
  by (simp_all add: tf_mean_squared_error_def tf_softmax_cross_entropy_with_logits_def
      tf_reduce_mean_def)

lemma toy_one_action_update:
  assumes "tf_add 0 (t ^ 2) = Inr s" and "tf_add s (c * (x ^ 2 / 2)) = Inr loss"
  shows "AlphaZeroKerasEvaluator_update (toy_evaluator_one_action x c) (toy_batch t) =
     Inr (\<lparr>lv_total = loss, lv_policy = 0, lv_value = t ^ 2, lv_l2 = c * (x ^ 2 / 2)\<rparr>,
          toy_evaluator_one_action x c)"
  using assms
  by (simp add: AlphaZeroKerasEvaluator_update_def toy_evaluator_one_action_def toy_batch_def
      np_vstack_def bindE_Inr toy_one_action_losses tf_l2_loss_def Let_def)

text \<open>
  Claim C9, as stated, fails on the code twice. The code adds
  \<^verbatim>\<open>l2_regularization * tf.nn.l2_loss(weights)\<close>, and \<^verbatim>\<open>tf.nn.l2_loss\<close> is half the
  sum of squares: with one trainable parameter \<open>2^-10\<close> and coefficient 4 the reported l2
  loss is \<open>2^-19\<close>, while the coefficient times the sum of squared parameters is \<open>2^-18\<close>.
  And the total is a float32 sum: with the value loss 64 (value 0 against the target 8)
  and the policy loss 0, the total \<open>64 + 2^-19\<close> rounds to 64, which differs from
  \<open>policy + value + l2\<close> by \<open>2^-19\<close>, more than \<open>10^-6\<close>.
\<close>

theorem update_loss_counterexample:
  "AlphaZeroKerasEvaluator_update (toy_evaluator_one_action (1 / 1024) 4) (toy_batch 8) =
     Inr (\<lparr>lv_total = 64, lv_policy = 0, lv_value = 64, lv_l2 = 1 / 2 ^ 19\<rparr>,
          toy_evaluator_one_action (1 / 1024) 4)
   \<and> 1 / 10 ^ 6 < \<bar>64 - (0 + 64 + 1 / 2 ^ 19 :: real)\<bar>
   \<and> l2_regularization (toy_evaluator_one_action (1 / 1024) 4)
       * sum_list (map (\<lambda>w. sum_list (map (\<lambda>x. x ^ 2) w))
           (trainable_variables (toy_evaluator_one_action (1 / 1024) 4)))
     = 1 / 2 ^ 18"
proof -
  have a: "tf_add 0 (8 ^ 2) = Inr 64"
    by (simp add: tf_add_def float32_64)
  have "(4::real) * ((1 / 1024) ^ 2 / 2) = 1 / 2 ^ 19" by (simp add: power2_eq_square)
  then have b: "tf_add 64 (4 * ((1 / 1024) ^ 2 / 2)) = Inr 64"
    by (simp only: tf_add_def float32_64_small)
  from toy_one_action_update [OF a b]
  have "AlphaZeroKerasEvaluator_update (toy_evaluator_one_action (1 / 1024) 4) (toy_batch 8) =
     Inr (\<lparr>lv_total = 64, lv_policy = 0, lv_value = 64, lv_l2 = 1 / 2 ^ 19\<rparr>,
          toy_evaluator_one_action (1 / 1024) 4)"
    by (simp add: power2_eq_square)
  then show ?thesis
    by (simp add: toy_evaluator_one_action_def power2_eq_square)
qed

text \<open>
  Claim C9, amended. For every loss report returned by the evaluator's update: the total
  is the float32 sum \<open>(policy + value) + l2\<close>, rounded to nearest after each of the two
  additions; it is within \<open>10^-6\<close> of \<open>policy + value + l2\<close> whenever \<open>policy + value\<close> and
  the total are below 16 in magnitude; the value loss is the mean squared error of the
  model's values against the batch's target values; the policy loss is the mean over the
  batch of the cross-entropy of the model's policy logits against the target policies; and
  the l2 loss is the regularisation coefficient times half the sum of the squares of all
  trainable parameters.
\<close>

theorem update_loss_report:
  assumes "AlphaZeroKerasEvaluator_update ev exs = Inr (lv, ev')"
  shows "lv_total lv = round32 (round32 (lv_policy lv + lv_value lv) + lv_l2 lv)
     \<and> (\<bar>lv_policy lv + lv_value lv\<bar> < 16 \<and> \<bar>lv_total lv\<bar> < 16 \<longrightarrow>
          \<bar>lv_total lv - (lv_policy lv + lv_value lv + lv_l2 lv)\<bar> \<le> 1 / 10 ^ 6)
     \<and> lv_l2 lv = l2_regularization ev
         * (sum_list (map (\<lambda>w. sum_list (map (\<lambda>x. x ^ 2) w)) (trainable_variables ev)) / 2)
     \<and> (case model ev (trainable_variables ev) True (map observation exs) of
          (values, logits) \<Rightarrow>
            lv_value lv =
              sum_list (map (\<lambda>(v, e). (target_value e - v) ^ 2) (zip (concat values) exs))
                / real (length exs)
            \<and> lv_policy lv =
              sum_list (map (\<lambda>(lg, e).
                  - sum_list (map (\<lambda>(x, y). y * (x - ln (sum_list (map exp lg))))
                               (zip lg (target_policy e))))
                (zip logits exs))
                / real (length exs))"
proof -
  obtain vals lgts where md:
    "model ev (trainable_variables ev) True (map observation exs) = (vals, lgts)"
    by (cases "model ev (trainable_variables ev) True (map observation exs)")
  obtain opt' vars' where ag:
    "apply_gradients ev (optimizer ev) (trainable_variables ev) exs = (opt', vars')"
    by (cases "apply_gradients ev (optimizer ev) (trainable_variables ev) exs")
  from assms obtain o1 where o1: "np_vstack (map observation exs) = Inr o1"
    by (cases "np_vstack (map observation exs)")
      (auto simp: AlphaZeroKerasEvaluator_update_def bindE_def)
  then have o1': "o1 = map observation exs" by (simp add: np_vstack_Inr)
  from assms o1 obtain t1 where t1: "np_vstack (map (\<lambda>e. [target_value e]) exs) = Inr t1"
    by (cases "np_vstack (map (\<lambda>e. [target_value e]) exs)")
      (auto simp: AlphaZeroKerasEvaluator_update_def bindE_def)
  then have t1': "t1 = map (\<lambda>e. [target_value e]) exs" by (simp add: np_vstack_Inr)
  from assms o1 t1 obtain p1 where p1: "np_vstack (map target_policy exs) = Inr p1"
    by (cases "np_vstack (map target_policy exs)")
      (auto simp: AlphaZeroKerasEvaluator_update_def bindE_def)
  then have p1': "p1 = map target_policy exs" by (simp add: np_vstack_Inr)
  from assms o1 t1 p1 md obtain lval where
    lval: "tf_mean_squared_error vals (map (\<lambda>e. [target_value e]) exs) = Inr lval"
    unfolding o1' t1' p1'
    by (cases "tf_mean_squared_error vals (map (\<lambda>e. [target_value e]) exs)")
      (auto simp: AlphaZeroKerasEvaluator_update_def bindE_def)
  from assms o1 t1 p1 md lval obtain ce where
    ce: "tf_softmax_cross_entropy_with_logits lgts (map target_policy exs) = Inr ce"
    unfolding o1' t1' p1'
    by (cases "tf_softmax_cross_entropy_with_logits lgts (map target_policy exs)")
      (auto simp: AlphaZeroKerasEvaluator_update_def bindE_def)
  let ?l2 = "fold (\<lambda>weights acc. acc + l2_regularization ev * tf_l2_loss weights)
      (trainable_variables ev) 0"
  from assms o1 t1 p1 md lval ce obtain s where
    s: "tf_add (tf_reduce_mean ce) lval = Inr s"
    unfolding o1' t1' p1'
    by (cases "tf_add (tf_reduce_mean ce) lval")
      (auto simp: AlphaZeroKerasEvaluator_update_def bindE_def Let_def)
  from assms o1 t1 p1 md lval ce s obtain loss where
    loss: "tf_add s ?l2 = Inr loss"
    unfolding o1' t1' p1'
    by (cases "tf_add s ?l2")
      (auto simp: AlphaZeroKerasEvaluator_update_def bindE_def Let_def)
  from assms have lv: "lv = \<lparr>lv_total = loss,
      lv_policy = tf_reduce_mean ce, lv_value = lval, lv_l2 = ?l2\<rparr>"
    using o1 t1 p1 md lval ce s loss ag unfolding o1' t1' p1'
    by (simp add: AlphaZeroKerasEvaluator_update_def bindE_def Let_def)
  from s have s': "s = round32 (tf_reduce_mean ce + lval)"
    unfolding tf_add_def by (rule float32_Inr)
  from loss have loss': "loss = round32 (s + ?l2)"
    unfolding tf_add_def by (rule float32_Inr)
  have tt: "lv_total lv = round32 (round32 (lv_policy lv + lv_value lv) + lv_l2 lv)"
    by (simp add: lv loss' s')
  have tol: "\<bar>lv_total lv - (lv_policy lv + lv_value lv + lv_l2 lv)\<bar> \<le> 1 / 10 ^ 6"
    if small: "\<bar>lv_policy lv + lv_value lv\<bar> < 16" "\<bar>lv_total lv\<bar> < 16"
  proof -
    let ?pv = "lv_policy lv + lv_value lv"
    from small(1) have e1: "\<bar>round32 ?pv - ?pv\<bar> \<le> 1 / 2 ^ 21"
      by (rule round32_close)
    from small(2) have "\<bar>round32 ?pv + lv_l2 lv\<bar> < 16"
      unfolding tt by (rule round32_lt_16)
    then have e2: "\<bar>round32 (round32 ?pv + lv_l2 lv) - (round32 ?pv + lv_l2 lv)\<bar> \<le> 1 / 2 ^ 21"
      by (rule round32_close)
    have "1 / 2 ^ 21 + 1 / 2 ^ 21 \<le> (1 / 10 ^ 6 :: real)" by simp
    with e1 e2 show ?thesis unfolding tt by linarith
  qed
  have l2: "lv_l2 lv = l2_regularization ev
      * (sum_list (map (\<lambda>w. sum_list (map (\<lambda>x. x ^ 2) w)) (trainable_variables ev)) / 2)"
    by (simp add: lv fold_add_sum_list l2_sum)
  from lval have shapes: "map length vals = map length (map (\<lambda>e. [target_value e]) exs)"
    and lval': "lval = sum_list (map (\<lambda>(l, p). (p - l) ^ 2)
        (zip (concat vals) (concat (map (\<lambda>e. [target_value e]) exs))))
        / real (length (concat vals))"
    by (auto simp: tf_mean_squared_error_def split: if_splits)
  have n: "length (concat vals) = length exs"
    using shapes by (rule length_concat_unit_rows)
  have "map (\<lambda>(l, p). (p - l) ^ 2) (zip (concat vals) (map target_value exs)) =
      map (\<lambda>(v, e). (target_value e - v) ^ 2) (zip (concat vals) exs)"
    by (simp add: zip_map2 case_prod_unfold)
  then have vloss: "lv_value lv =
      sum_list (map (\<lambda>(v, e). (target_value e - v) ^ 2) (zip (concat vals) exs))
        / real (length exs)"
    by (simp add: lv lval' concat_singletons n)
  from ce have pshapes: "map length lgts = map length (map target_policy exs)"
    and ce': "ce = map (\<lambda>(lg, lb).
               - sum_list (map (\<lambda>(x, y). y * (x - ln (sum_list (map exp lg)))) (zip lg lb)))
             (zip lgts (map target_policy exs))"
    by (auto simp: tf_softmax_cross_entropy_with_logits_def split: if_splits)
  from pshapes have "length (map length lgts) = length (map length (map target_policy exs))"
    by simp
  then have ll: "length lgts = length exs" by simp
  have ce'': "ce = map (\<lambda>(lg, e).
                  - sum_list (map (\<lambda>(x, y). y * (x - ln (sum_list (map exp lg))))
                               (zip lg (target_policy e))))
                (zip lgts exs)"
    unfolding ce' by (simp add: zip_map2 case_prod_unfold)
  have "length ce = length exs"
    unfolding ce'' using ll by simp
  then have ploss: "lv_policy lv =
      sum_list (map (\<lambda>(lg, e).
                  - sum_list (map (\<lambda>(x, y). y * (x - ln (sum_list (map exp lg))))
                               (zip lg (target_policy e))))
                (zip lgts exs))
        / real (length exs)"
    unfolding lv tf_reduce_mean_def using ce'' by simp
  from tol have tol': "\<bar>lv_policy lv + lv_value lv\<bar> < 16 \<and> \<bar>lv_total lv\<bar> < 16 \<longrightarrow>
          \<bar>lv_total lv - (lv_policy lv + lv_value lv + lv_l2 lv)\<bar> \<le> 1 / 10 ^ 6"
    by blast
  show ?thesis
    unfolding md prod.case using tt tol' l2 vloss ploss by blast
qed

theorem update_loss_report_witness:
  "AlphaZeroKerasEvaluator_update (toy_evaluator_one_action 1 1) (toy_batch 1) =
     Inr (\<lparr>lv_total = 3 / 2, lv_policy = 0, lv_value = 1, lv_l2 = 1 / 2\<rparr>,
          toy_evaluator_one_action 1 1)
   \<and> \<bar>3 / 2 - (0 + 1 + 1 / 2 :: real)\<bar> \<le> 1 / 10 ^ 6
   \<and> round32 (round32 (0 + 1) + 1 / 2) = 3 / 2"
proof -
  have a: "tf_add 0 (1 ^ 2) = Inr 1"
    by (simp add: tf_add_def float32_1)
  have b: "tf_add 1 (1 * (1 ^ 2 / 2)) = Inr (3 / 2)"
    by (simp add: tf_add_def float32_3_2)
  from toy_one_action_update [OF a b]
  have run: "AlphaZeroKerasEvaluator_update (toy_evaluator_one_action 1 1) (toy_batch 1) =
     Inr (\<lparr>lv_total = 3 / 2, lv_policy = 0, lv_value = 1, lv_l2 = 1 / 2\<rparr>,
          toy_evaluator_one_action 1 1)"
    by simp
  from update_loss_report [OF run] have
    "3 / 2 = round32 (round32 (0 + 1) + 1 / 2)"
    "\<bar>(0::real) + 1\<bar> < 16 \<and> \<bar>3 / 2 :: real\<bar> < 16 \<longrightarrow>
       \<bar>3 / 2 - (0 + 1 + 1 / 2 :: real)\<bar> \<le> 1 / 10 ^ 6"
    by simp_all
  with run show ?thesis by simp
qed

section \<open>The evaluator's value and prior\<close>

lemma mapE_Inr: "\<forall>x\<in>set xs. f x = Inr (h x) \<Longrightarrow> mapE f xs = Inr (map h xs)"
  by (induction xs) (auto simp: bindE_def)

lemma masked_sum_indices:
  fixes xs :: "real list" and ms :: "int list"
  assumes "length xs = length ms"
  shows "sum_list (map (\<lambda>(l, m). if m \<noteq> 0 then exp l else 0) (zip xs ms)) =
      (\<Sum>i | i < length xs \<and> ms ! i \<noteq> 0. exp (xs ! i))"
proof -
  let ?e = "map (\<lambda>(l, m). if m \<noteq> 0 then exp l else 0) (zip xs ms)"
  have len: "length ?e = length xs" using assms by simp
  have "sum_list ?e = (\<Sum>i = 0..<length ?e. ?e ! i)"
    by (rule sum_list_sum_nth)
  also have "\<dots> = (\<Sum>i = 0..<length xs. if ms ! i \<noteq> 0 then exp (xs ! i) else 0)"
    unfolding len using assms by (intro sum.cong) auto
  also have "\<dots> = (\<Sum>i \<in> {i \<in> {0..<length xs}. ms ! i \<noteq> 0}. exp (xs ! i))"
    by (rule sum.inter_filter [symmetric]) simp
  also have "{i \<in> {0..<length xs}. ms ! i \<noteq> 0} = {i. i < length xs \<and> ms ! i \<noteq> 0}"
    by auto
  finally show ?thesis .
qed

lemma legal_indices:
  fixes legal :: "int list" and ms :: "int list"
  assumes rng: "\<forall>a\<in>set legal. 0 \<le> a \<and> a < int n"
    and cons: "\<forall>i<n. (ms ! i \<noteq> 0) = (int i \<in> set legal)"
  shows "{i. i < n \<and> ms ! i \<noteq> 0} = nat ` set legal" and "inj_on nat (set legal)"
proof -
  show "{i. i < n \<and> ms ! i \<noteq> 0} = nat ` set legal"
  proof (intro set_eqI iffI)
    fix i assume "i \<in> {i. i < n \<and> ms ! i \<noteq> 0}"
    then have "i < n" "ms ! i \<noteq> 0" by simp_all
    with cons have "int i \<in> set legal" by blast
    then have "nat (int i) \<in> nat ` set legal" by (rule imageI)
    then show "i \<in> nat ` set legal" by simp
  next
    fix i assume "i \<in> nat ` set legal"
    then obtain a where a: "a \<in> set legal" and i: "i = nat a" by blast
    from a rng have a0: "0 \<le> a" and an: "a < int n" by simp_all
    from a0 i have ia: "int i = a" by simp
    from a0 an i have "i < n" by simp
    moreover from this cons ia a have "ms ! i \<noteq> 0" by simp
    ultimately show "i \<in> {i. i < n \<and> ms ! i \<noteq> 0}" by simp
  qed
  show "inj_on nat (set legal)"
  proof (rule inj_onI)
    fix a b assume "a \<in> set legal" "b \<in> set legal" "nat a = nat b"
    with rng show "a = b" by (metis nat_eq_iff2 int_nat_eq)
  qed
qed

text \<open>
  Claim C8. When the observation fits the input shape, the model returns a value row
  beginning with \<open>v\<close> and a row of policy logits as long as the legal-actions mask, the
  mask marks exactly the legal actions, and there is a legal action, \<open>value_and_prior\<close>
  returns the value vector \<open>[v, - v]\<close> and the list of the legal actions, in their order,
  each with the probability \<open>exp(logit) / (sum of exp(logit) over the legal actions)\<close>; the
  probabilities of the legal actions sum to 1, so that no mass is left to an illegal
  action and none enters the denominator.
\<close>

theorem value_and_prior_spec:
  assumes shape: "int (length (observation_tensor g state)) = prod_list (input_shape ev)"
    and md: "model ev (trainable_variables ev) False [observation_tensor g state] =
        ((v # row_rest) # value_rest, lg # policy_rest)"
    and len: "length (legal_actions_mask g state) = length lg"
    and rng: "\<forall>a\<in>set (legal_actions g state). 0 \<le> a \<and> a < int (length lg)"
    and cons: "\<forall>i<length lg.
        (legal_actions_mask g state ! i \<noteq> 0) = (int i \<in> set (legal_actions g state))"
    and ne: "legal_actions g state \<noteq> []"
  shows "value_and_prior ev g state =
      Inr ([v, - v],
           map (\<lambda>a. (a, exp (lg ! nat a)
                         / (\<Sum>b\<in>set (legal_actions g state). exp (lg ! nat b))))
             (legal_actions g state))
    \<and> (\<Sum>a\<in>set (legal_actions g state).
          exp (lg ! nat a) / (\<Sum>b\<in>set (legal_actions g state). exp (lg ! nat b))) = 1"
proof -
  let ?legal = "legal_actions g state"
  let ?ms = "legal_actions_mask g state"
  let ?e = "map (\<lambda>(l, m). if m \<noteq> 0 then exp l else 0) (zip lg ?ms)"
  let ?Z = "\<Sum>b\<in>set ?legal. exp (lg ! nat b)"
  have "sum_list ?e = (\<Sum>i | i < length lg \<and> ?ms ! i \<noteq> 0. exp (lg ! i))"
    using len by (intro masked_sum_indices) simp
  also have "\<dots> = (\<Sum>i\<in>nat ` set ?legal. exp (lg ! i))"
    using legal_indices(1) [OF rng cons] by simp
  also have "\<dots> = ?Z"
    using legal_indices(2) [OF rng cons] by (simp add: sum.reindex)
  finally have z: "sum_list ?e = ?Z" .
  from ne have "set ?legal \<noteq> {}" by simp
  then have zpos: "0 < ?Z"
    by (intro sum_pos) simp_all
  let ?p = "map (\<lambda>e. e / ?Z) ?e"
  have soft: "np_masked_softmax lg ?ms = Inr ?p"
    using len zpos by (simp add: np_masked_softmax_def Let_def z)
  have item: "bindE (py_getitem ?p a) (\<lambda>p. Inr (a, p)) = Inr (a, exp (lg ! nat a) / ?Z)"
    if a: "a \<in> set ?legal" for a
  proof -
    from a rng have a0: "0 \<le> a" and an: "a < int (length lg)" by simp_all
    then have n: "nat a < length lg" by simp
    from a0 have "int (nat a) = a" by simp
    with cons n a have m: "?ms ! nat a \<noteq> 0" by simp
    have "?e ! nat a = exp (lg ! nat a)"
      using n len m by simp
    then have "?p ! nat a = exp (lg ! nat a) / ?Z"
      using n len by simp
    moreover have "py_getitem ?p a = Inr (?p ! nat a)"
      using a0 an len by (simp add: py_getitem_def)
    ultimately show ?thesis by (simp add: bindE_def)
  qed
  have items: "mapE (\<lambda>act. bindE (py_getitem ?p act) (\<lambda>p. Inr (act, p))) ?legal =
      Inr (map (\<lambda>a. (a, exp (lg ! nat a) / ?Z)) ?legal)"
    by (rule mapE_Inr) (use item in blast)
  have run: "value_and_prior ev g state =
      Inr ([v, - v], map (\<lambda>a. (a, exp (lg ! nat a) / ?Z)) ?legal)"
  proof -
    have g0: "py_getitem (lg # policy_rest) 0 = Inr lg"
      by (simp add: py_getitem_def)
    have v0: "py_getitem ((v # row_rest) # value_rest) 0 = Inr (v # row_rest)"
      by (simp add: py_getitem_def)
    have v1: "py_getitem (v # row_rest) 0 = Inr v"
      by (simp add: py_getitem_def)
    have b: "bindE (Inr x) f = f x" for x :: 'x and f :: "'x \<Rightarrow> exn + 'y"
      by (simp add: bindE_def)
    show ?thesis
      unfolding value_and_prior_def
      by (simp only: shape md g0 soft items v0 v1 b prod.case simp_thms if_False)
  qed
  have "(\<Sum>a\<in>set ?legal. exp (lg ! nat a) / ?Z) = ?Z / ?Z"
    by (rule sum_divide_distrib [symmetric])
  with zpos have one: "(\<Sum>a\<in>set ?legal. exp (lg ! nat a) / ?Z) = 1" by simp
  from run one show ?thesis by blast
qed

theorem value_and_prior_spec_witness:
  "value_and_prior toy_evaluator toy_game_one_legal 0 = Inr ([1 / 2, - (1 / 2)], [(0, 1)])"
proof -
  have shape: "int (length (observation_tensor toy_game_one_legal (0::nat))) =
      prod_list (input_shape toy_evaluator)"
    by (simp add: toy_game_one_legal_def toy_game_def toy_evaluator_def)
  have md: "model toy_evaluator (trainable_variables toy_evaluator) False
        [observation_tensor toy_game_one_legal (0::nat)] =
      ((1 / 2 # []) # [], [0, 0] # [])"
    by (simp add: toy_evaluator_def)
  have len: "length (legal_actions_mask toy_game_one_legal (0::nat)) = length [0, 0 :: real]"
    by (simp add: toy_game_one_legal_def)
  have rng: "\<forall>a\<in>set (legal_actions toy_game_one_legal (0::nat)).
      0 \<le> a \<and> a < int (length [0, 0 :: real])"
    by (simp add: toy_game_one_legal_def)
  have cons: "\<forall>i<length [0, 0 :: real].
      (legal_actions_mask toy_game_one_legal (0::nat) ! i \<noteq> 0) =
      (int i \<in> set (legal_actions toy_game_one_legal (0::nat)))"
    by (simp add: toy_game_one_legal_def less_Suc_eq)
  have ne: "legal_actions toy_game_one_legal (0::nat) \<noteq> []"
    by (simp add: toy_game_one_legal_def)
  have la: "legal_actions toy_game_one_legal (0::nat) = [0]"
    by (simp add: toy_game_one_legal_def)
  from value_and_prior_spec [OF shape md len rng cons ne]
  show ?thesis by (simp add: la)
qed

end
